theory Spec2Isabelle
  imports Main "HOL-Library.AList"
begin

section \<open>Values, effects and collaborators\<close>

text \<open>
  The tile cache of \<^verbatim>\<open>src/src/tilecache.js\<close> (classes \<^verbatim>\<open>CacheRecord\<close> and
  \<^verbatim>\<open>TileCache\<close>) is embedded as pure functions over explicit state.

  Conventions of the embedding:
  \<^item> JavaScript values that the cache stores or tests for truthiness are \<open>jsval\<close>.
  \<^item> A member written \<^verbatim>\<open>_name\<close> in the source is \<open>priv_name\<close> here.
  \<^item> Calls on external collaborators (the conversion registry, the console, tiled images,
    the viewer) are recorded in an effect list, in call order.
  \<^item> A JavaScript \<^verbatim>\<open>TypeError\<close> raised by reading a member of \<^verbatim>\<open>null\<close> is the
    value \<open>Inl TypeError\<close>.
  \<^item> A promise is represented by the value it settles with. Functions that start a promise
    chain return the state reached once every callback and timer started by the call has run,
    with no other operation interleaved.
  \<^item> \<^verbatim>\<open>$.console.assert\<close>, \<^verbatim>\<open>error\<close> and \<^verbatim>\<open>warn\<close> log and return; a failed assertion is
    the effect \<open>ConsoleAssert\<close>.
  \<^item> Numbers (\<^verbatim>\<open>level\<close>, \<^verbatim>\<open>lastTouchTime\<close>, counters) are integers.
  \<^item> The two key-indexed containers are association lists in insertion order, which is the
    \<^verbatim>\<open>for ... in\<close> order of JavaScript for keys that are not array indices. Cache keys
    are taken to be neither array indices nor names of members of \<^verbatim>\<open>Array.prototype\<close>
    (the source keeps both containers in arrays).
\<close>

datatype jsval = Undefined | Null | JBool bool | JNum int | JStr string | JObj nat

fun truthy :: "jsval \<Rightarrow> bool" where
  "truthy Undefined = False"
| "truthy Null = False"
| "truthy (JBool b) = b"
| "truthy (JNum n) = (n \<noteq> 0)"
| "truthy (JStr s) = (s \<noteq> [])"
| "truthy (JObj a) = True"

type_synonym tile_ref = nat

datatype error = TypeError

datatype effect =
    ConsoleError string
  | ConsoleWarn string
  | ConsoleAssert string
  | GetConversionPath jsval jsval
  | Transform jsval jsval jsval
  | ConvertorDestroy jsval jsval
  | GuessType jsval
  | NeedsDrawOfTile tile_ref
  | TileUnload tile_ref
  | TileUnloadedEvent tile_ref nat bool

text \<open>An edge of a conversion path: \<^verbatim>\<open>edge.origin.value\<close>, \<^verbatim>\<open>edge.target.value\<close> and
  the value \<^verbatim>\<open>edge.transform(x)\<close> resolves with.\<close>

record edge =
  origin :: jsval
  target :: jsval
  transform :: "jsval \<Rightarrow> jsval"

text \<open>The conversion registry \<^verbatim>\<open>$.convertor\<close> is not part of the source; it is a parameter.
  \<open>getConversionPath\<close> returns \<open>None\<close> for a falsy result (\<^verbatim>\<open>undefined\<close>) and
  \<open>Some path\<close> for an array, which may be empty.\<close>

record convertor =
  getConversionPath :: "jsval \<Rightarrow> jsval \<Rightarrow> edge list option"
  guessType :: "jsval \<Rightarrow> jsval"

section \<open>CacheRecord\<close>

text \<open>A queued job of \<^verbatim>\<open>_conversionJobQueue\<close>: the closure pushed by \<^verbatim>\<open>transformTo\<close>
  (with its target type) or by \<^verbatim>\<open>setDataAs\<close> (with its data and type).\<close>

datatype job = TransformJob jsval | OverwriteJob jsval jsval

record cache_record =
  priv_tiles :: "tile_ref list option"
  priv_data :: jsval
  priv_type :: jsval
  loaded :: bool
  priv_promise :: "jsval option"
  priv_destroyed :: bool
  priv_conversionJobQueue :: "job list option"

text \<open>What \<^verbatim>\<open>transformTo\<close> and \<^verbatim>\<open>setDataAs\<close> return: the record's own promise
  (\<open>None\<close> when it is \<^verbatim>\<open>null\<close>), a fresh promise settled with a value, or a fresh promise
  that waits for its queued job.\<close>

datatype eventual = RecordPromise "jsval option" | Settled jsval | Queued

definition revive :: "cache_record \<Rightarrow> cache_record \<times> effect list" where
  "revive r =
     (r\<lparr>priv_tiles := Some [], priv_data := Null, priv_type := Null, loaded := False,
        priv_promise := None, priv_destroyed := False\<rparr>,
      if loaded r \<or> truthy (priv_type r)
      then [ConsoleAssert ''[CacheRecord::revive] must not be called when loaded!'']
      else [])"

text \<open>\<^verbatim>\<open>new $.CacheRecord()\<close>: the constructor calls \<^verbatim>\<open>revive()\<close> on an object without
  members.\<close>

definition new_CacheRecord :: cache_record where
  "new_CacheRecord =
     \<lparr>priv_tiles = Some [], priv_data = Null, priv_type = Null, loaded = False,
      priv_promise = None, priv_destroyed = False, priv_conversionJobQueue = None\<rparr>"

definition await :: "cache_record \<Rightarrow> eventual" where
  "await r = (case priv_promise r of None \<Rightarrow> Settled Undefined | Some v \<Rightarrow> RecordPromise (Some v))"

text \<open>\<^verbatim>\<open>destroy()\<close>. When the record is not loaded the source calls
  \<^verbatim>\<open>this._promise.then(...)\<close>; with \<^verbatim>\<open>_promise === null\<close> that is a TypeError. Otherwise the
  callback runs with the value of the promise and, the record being still destroyed, clears
  the members.\<close>

definition destroy :: "cache_record \<Rightarrow> error + cache_record \<times> effect list" where
  "destroy r =
     (let r1 = r\<lparr>priv_conversionJobQueue := None, priv_destroyed := True\<rparr> in
      if loaded r
      then Inr (r1\<lparr>priv_tiles := None, priv_data := Null, priv_type := Null,
                   priv_promise := None, loaded := False\<rparr>,
                [ConvertorDestroy (priv_data r) (priv_type r)])
      else (case priv_promise r of
              None \<Rightarrow> Inl TypeError
            | Some x \<Rightarrow>
                Inr (r1\<lparr>loaded := False, priv_tiles := None, priv_data := Null, priv_type := Null,
                        priv_promise := None\<rparr>,
                     [ConvertorDestroy x (priv_type r)])))"

definition removeTile :: "tile_ref \<Rightarrow> cache_record \<Rightarrow> error + cache_record \<times> bool \<times> effect list" where
  "removeTile tile r =
     (if priv_destroyed r then Inr (r, False, [])
      else (case priv_tiles r of
              None \<Rightarrow> Inl TypeError
            | Some ts \<Rightarrow>
                if tile \<in> set ts
                then Inr (r\<lparr>priv_tiles := Some (remove1 tile ts)\<rparr>, True, [])
                else Inr (r, False,
                          [ConsoleWarn ''[CacheRecord.removeTile] trying to remove unknown tile''])))"

definition addTile :: "tile_ref \<Rightarrow> jsval \<Rightarrow> jsval \<Rightarrow> cache_record \<Rightarrow> error + cache_record" where
  "addTile tile dat typ r =
     (if priv_destroyed r then Inr r
      else (case priv_tiles r of
              None \<Rightarrow> Inl TypeError
            | Some ts \<Rightarrow>
                if tile \<in> set ts
                then Inr (r\<lparr>priv_tiles := Some (remove1 tile ts @ [tile])\<rparr>)
                else if \<not> loaded r
                then Inr (r\<lparr>priv_type := typ, priv_promise := Some dat, priv_data := dat,
                            loaded := True, priv_tiles := Some (ts @ [tile])\<rparr>)
                else Inr (r\<lparr>priv_tiles := Some (ts @ [tile])\<rparr>)))"

definition getTileCount :: "cache_record \<Rightarrow> nat" where
  "getTileCount r = (case priv_tiles r of None \<Rightarrow> 0 | Some ts \<Rightarrow> length ts)"

definition priv_triggerNeedsDraw :: "cache_record \<Rightarrow> error + effect list" where
  "priv_triggerNeedsDraw r =
     (case priv_tiles r of None \<Rightarrow> Inl TypeError | Some ts \<Rightarrow> Inr (map NeedsDrawOfTile ts))"

text \<open>\<^verbatim>\<open>_overwriteData(data, type)\<close>. In the last branch the callback of
  \<^verbatim>\<open>this._promise.then\<close> has run; it does not set \<^verbatim>\<open>loaded\<close>.\<close>

definition priv_overwriteData ::
  "jsval \<Rightarrow> jsval \<Rightarrow> cache_record \<Rightarrow> error + cache_record \<times> eventual \<times> effect list" where
  "priv_overwriteData dat typ r =
     (if priv_destroyed r then Inr (r, Settled Undefined, [ConvertorDestroy dat typ])
      else if loaded r
      then (case priv_triggerNeedsDraw r of
              Inl e \<Rightarrow> Inl e
            | Inr nd \<Rightarrow>
                Inr (r\<lparr>priv_type := typ, priv_data := dat, priv_promise := Some dat\<rparr>,
                     RecordPromise (Some dat),
                     ConvertorDestroy (priv_data r) (priv_type r) # nd))
      else (case priv_promise r of
              None \<Rightarrow> Inl TypeError
            | Some x \<Rightarrow>
                Inr (r\<lparr>priv_type := typ, priv_data := dat, priv_promise := Some dat\<rparr>,
                     Settled x,
                     ConvertorDestroy x (priv_type r) #
                       (case priv_triggerNeedsDraw r of Inl e \<Rightarrow> [] | Inr nd \<Rightarrow> nd))))"

definition setDataAs ::
  "jsval \<Rightarrow> jsval \<Rightarrow> cache_record \<Rightarrow> error + cache_record \<times> eventual \<times> effect list" where
  "setDataAs dat typ r =
     (let a = (if dat = Undefined
               then [ConsoleAssert ''[CacheRecord.setDataAs] needs valid data to set!'']
               else []) in
      case priv_conversionJobQueue r of
        Some q \<Rightarrow> Inr (r\<lparr>priv_conversionJobQueue := Some (q @ [OverwriteJob dat typ])\<rparr>, Queued, a)
      | None \<Rightarrow>
          (case priv_overwriteData dat typ r of
             Inl e \<Rightarrow> Inl e
           | Inr (r', p, effs) \<Rightarrow> Inr (r', p, a @ effs)))"

text \<open>The closure \<^verbatim>\<open>convert(x, i)\<close> of \<^verbatim>\<open>_convert\<close>, over the edges from index \<open>i\<close> on.
  It returns the record, the value its promise resolves with, whether the last step was
  reached (where the source calls \<^verbatim>\<open>_checkAwaitsConvert\<close>) and the effects.\<close>

fun convert ::
  "jsval \<Rightarrow> jsval \<Rightarrow> edge list \<Rightarrow> jsval \<Rightarrow> cache_record \<Rightarrow> cache_record \<times> jsval \<times> bool \<times> effect list" where
  "convert from originalData [] x r = (r\<lparr>priv_data := x, loaded := True\<rparr>, x, True, [])"
| "convert from originalData (e # es) x r =
     (let y = transform e x in
      if \<not> truthy y
      then (r\<lparr>priv_data := from, priv_type := from, loaded := True\<rparr>, originalData, False,
            [Transform (origin e) (target e) x,
             ConsoleError ''[OpenSeadragon.convertor.convert] data mid result falsey value''])
      else (case convert from originalData es y r of
              (r', v, fin, effs) \<Rightarrow>
                (r', v, fin,
                 Transform (origin e) (target e) x # ConvertorDestroy x (origin e) # effs)))"

text \<open>\<^verbatim>\<open>_convert(from, to)\<close> up to, and without, the call of \<^verbatim>\<open>_checkAwaitsConvert\<close>.\<close>

definition convert_steps ::
  "convertor \<Rightarrow> jsval \<Rightarrow> jsval \<Rightarrow> cache_record \<Rightarrow> cache_record \<times> bool \<times> effect list" where
  "convert_steps cv from to r =
     (case getConversionPath cv from to of
        None \<Rightarrow>
          (r, False,
           [GetConversionPath from to,
            ConsoleError ''[OpenSeadragon.convertor.convert] Conversion cannot be done!''])
      | Some conversionPath \<Rightarrow>
          (case convert from (priv_data r) conversionPath (priv_data r)
                  (r\<lparr>loaded := False, priv_data := Undefined, priv_type := to\<rparr>) of
             (r', v, fin, effs) \<Rightarrow>
               (r'\<lparr>priv_promise := Some v\<rparr>, fin, GetConversionPath from to # effs)))"

text \<open>The timer callback of \<^verbatim>\<open>_checkAwaitsConvert\<close>, on the content of the queue: it takes
  the first job, deletes the queue when it became empty, and runs the job. A job that
  converts and reaches the last step drains again. An error raised inside the timer does not
  reach any caller: the drain stops.\<close>

fun run_queue :: "convertor \<Rightarrow> job list \<Rightarrow> cache_record \<Rightarrow> cache_record \<times> effect list" where
  "run_queue cv [] r = (r\<lparr>priv_conversionJobQueue := None\<rparr>, [])"
| "run_queue cv (j # js) r =
     (let r1 = r\<lparr>priv_conversionJobQueue := (if js = [] then None else Some js)\<rparr> in
      case j of
        OverwriteJob dat typ \<Rightarrow>
          (case priv_overwriteData dat typ r1 of
             Inl e \<Rightarrow> (r1, [])
           | Inr (r2, p, effs) \<Rightarrow> (r2, effs))
      | TransformJob typ \<Rightarrow>
          if priv_destroyed r1 then (r1, [])
          else if typ \<noteq> priv_type r1
          then (case convert_steps cv (priv_type r1) typ r1 of
                  (r2, fin, effs) \<Rightarrow>
                    if fin \<and> js \<noteq> []
                    then (case run_queue cv js r2 of (r3, effs') \<Rightarrow> (r3, effs @ effs'))
                    else (r2, effs))
          else (case priv_promise r1 of
                  None \<Rightarrow> (r1, [])
                | Some v \<Rightarrow> if js \<noteq> [] then run_queue cv js r1 else (r1, [])))"

definition priv_checkAwaitsConvert :: "convertor \<Rightarrow> cache_record \<Rightarrow> cache_record \<times> effect list" where
  "priv_checkAwaitsConvert cv r =
     (case priv_conversionJobQueue r of
        None \<Rightarrow> (r, [])
      | Some q \<Rightarrow> if priv_destroyed r then (r, []) else run_queue cv q r)"

definition priv_convert :: "convertor \<Rightarrow> jsval \<Rightarrow> jsval \<Rightarrow> cache_record \<Rightarrow> cache_record \<times> effect list" where
  "priv_convert cv from to r =
     (case convert_steps cv from to r of
        (r', fin, effs) \<Rightarrow>
          if fin then (case priv_checkAwaitsConvert cv r' of (r'', effs') \<Rightarrow> (r'', effs @ effs'))
          else (r', effs))"

text \<open>\<^verbatim>\<open>transformTo(type = this._type)\<close>: an \<^verbatim>\<open>undefined\<close> argument takes the default.
  After \<^verbatim>\<open>_convert\<close> the source returns \<^verbatim>\<open>this._promise\<close> at once: the promise that
  \<^verbatim>\<open>_convert\<close> has just assigned (or the previous one when there is no route), which is the
  promise of the record after \<open>convert_steps\<close>. The queued jobs run later and may replace
  the promise of the record, not the one returned.\<close>

definition transformTo ::
  "convertor \<Rightarrow> jsval \<Rightarrow> cache_record \<Rightarrow> cache_record \<times> eventual \<times> effect list" where
  "transformTo cv arg r =
     (let typ = (if arg = Undefined then priv_type r else arg) in
      if \<not> loaded r \<or> typ \<noteq> priv_type r
      then (if \<not> loaded r
            then (r\<lparr>priv_conversionJobQueue :=
                      Some ((case priv_conversionJobQueue r of None \<Rightarrow> [] | Some q \<Rightarrow> q)
                            @ [TransformJob typ])\<rparr>,
                  Queued, [])
            else (case convert_steps cv (priv_type r) typ r of
                    (r0, fin, effs0) \<Rightarrow>
                      (case priv_convert cv (priv_type r) typ r of
                         (r', effs) \<Rightarrow> (r', RecordPromise (priv_promise r0), effs))))
      else (r, RecordPromise (priv_promise r), []))"

section \<open>Tiles\<close>

text \<open>The Tile class is not part of the source. A tile is the attributes the cache reads:
  \<open>priv_caches\<close> lists the keys of \<^verbatim>\<open>tile._caches\<close> in iteration order, \<open>cacheSize\<close> is
  what \<^verbatim>\<open>getCacheSize()\<close> returns, \<open>tile_loaded\<close> is \<^verbatim>\<open>tile.loaded\<close>. Tiles are shared
  objects: the cache holds references into a heap of tiles. What \<^verbatim>\<open>tile.unload()\<close> does to
  a tile is a parameter \<open>un\<close> of the operations that call it.\<close>

record tile =
  cacheKey :: string
  level :: int
  beingDrawn :: bool
  lastTouchTime :: int
  tiledImage :: nat
  priv_caches :: "string list"
  cacheSize :: nat
  tile_loaded :: bool

section \<open>TileCache\<close>

record tilecache =
  priv_maxCacheItemCount :: int
  priv_tilesLoaded :: "tile_ref list"
  priv_zombiesLoaded :: "(string \<times> cache_record) list"
  priv_zombiesLoadedCount :: int
  priv_cachesLoaded :: "(string \<times> cache_record) list"
  priv_cachesLoadedCount :: int
  tiles :: "tile_ref \<Rightarrow> tile"
  effects :: "effect list"

text \<open>The argument of \<^verbatim>\<open>cacheTile\<close>. An absent \<^verbatim>\<open>options.cacheKey\<close> is the empty string
  (both are falsy), an absent \<^verbatim>\<open>options.cutoff\<close> is 0.\<close>

record options =
  o_tile :: tile_ref
  o_cacheKey :: string
  o_image :: jsval
  o_data :: jsval
  o_dataType :: jsval
  o_cutoff :: int

definition new_TileCache :: "int \<Rightarrow> (tile_ref \<Rightarrow> tile) \<Rightarrow> tilecache" where
  "new_TileCache maxImageCacheCount h =
     \<lparr>priv_maxCacheItemCount = maxImageCacheCount, priv_tilesLoaded = [],
      priv_zombiesLoaded = [], priv_zombiesLoadedCount = 0,
      priv_cachesLoaded = [], priv_cachesLoadedCount = 0,
      tiles = h, effects = []\<rparr>"

definition numTilesLoaded :: "tilecache \<Rightarrow> nat" where
  "numTilesLoaded s = length (priv_tilesLoaded s)"

definition numCachesLoaded :: "tilecache \<Rightarrow> int" where
  "numCachesLoaded s = priv_zombiesLoadedCount s + priv_cachesLoadedCount s"

text \<open>\<^verbatim>\<open>this._cachesLoaded[cacheKey] || this._zombiesLoaded[cacheKey]\<close>\<close>

definition getCacheRecord :: "tilecache \<Rightarrow> string \<Rightarrow> cache_record option" where
  "getCacheRecord s key =
     (case map_of (priv_cachesLoaded s) key of
        Some r \<Rightarrow> Some r
      | None \<Rightarrow> map_of (priv_zombiesLoaded s) key)"

text \<open>\<^verbatim>\<open>xs.splice(i, 1)\<close>\<close>

definition splice1 :: "nat \<Rightarrow> 'a list \<Rightarrow> 'a list" where
  "splice1 i xs = take i xs @ drop (Suc i) xs"

text \<open>A record is an object: a mutation through the reference found by the lookup is seen
  in the container that holds it. \<open>store_record\<close> writes the mutated record back where the
  lookup found it; a record held by neither container is only held by the caller.\<close>

definition store_record :: "string \<Rightarrow> cache_record \<Rightarrow> tilecache \<Rightarrow> tilecache" where
  "store_record key r s =
     (case map_of (priv_cachesLoaded s) key of
        Some r0 \<Rightarrow> s\<lparr>priv_cachesLoaded := AList.update key r (priv_cachesLoaded s)\<rparr>
      | None \<Rightarrow>
          (case map_of (priv_zombiesLoaded s) key of
             Some r0 \<Rightarrow> s\<lparr>priv_zombiesLoaded := AList.update key r (priv_zombiesLoaded s)\<rparr>
           | None \<Rightarrow> s))"

definition log :: "effect list \<Rightarrow> tilecache \<Rightarrow> tilecache" where
  "log es s = s\<lparr>effects := effects s @ es\<rparr>"

definition unloadCacheForTile ::
  "tile_ref \<Rightarrow> string \<Rightarrow> bool \<Rightarrow> tilecache \<Rightarrow> error + tilecache \<times> bool" where
  "unloadCacheForTile tile key destr s =
     (case map_of (priv_cachesLoaded s) key of
        None \<Rightarrow>
          Inr (log [ConsoleWarn ''[TileCache.unloadCacheForTile] Attempting to delete missing cache!''] s,
               False)
      | Some cacheRecord \<Rightarrow>
          (case removeTile tile cacheRecord of
             Inl e \<Rightarrow> Inl e
           | Inr (rec1, removed, es) \<Rightarrow>
               if removed
               then (if getTileCount rec1 = 0
                     then (if destr
                           then (case destroy rec1 of
                                   Inl e \<Rightarrow> Inl e
                                 | Inr (rec2, es2) \<Rightarrow>
                                     Inr (log (es @ es2)
                                            (s\<lparr>priv_cachesLoaded := AList.delete key (priv_cachesLoaded s),
                                               priv_cachesLoadedCount := priv_cachesLoadedCount s - 1\<rparr>),
                                          True))
                           else Inr (log es
                                       (s\<lparr>priv_zombiesLoaded := AList.update key rec1 (priv_zombiesLoaded s),
                                          priv_zombiesLoadedCount := priv_zombiesLoadedCount s + 1,
                                          priv_cachesLoaded := AList.delete key (priv_cachesLoaded s),
                                          priv_cachesLoadedCount := priv_cachesLoadedCount s - 1\<rparr>),
                                     True))
                     else Inr (log es (s\<lparr>priv_cachesLoaded := AList.update key rec1 (priv_cachesLoaded s)\<rparr>),
                               True))
               else Inr (log (es @ [ConsoleError ''[TileCache.unloadCacheForTile] System tried to delete tile from cache it does not belong to!''])
                           s,
                         False)))"

text \<open>The loop \<^verbatim>\<open>for (let key in tile._caches)\<close> of \<^verbatim>\<open>unloadTile\<close>.\<close>

fun unloadCaches :: "tile_ref \<Rightarrow> bool \<Rightarrow> string list \<Rightarrow> tilecache \<Rightarrow> error + tilecache" where
  "unloadCaches tile destr [] s = Inr s"
| "unloadCaches tile destr (key # keys) s =
     (case unloadCacheForTile tile key destr s of
        Inl e \<Rightarrow> Inl e
      | Inr (s', b) \<Rightarrow> unloadCaches tile destr keys s')"

text \<open>\<^verbatim>\<open>unloadTile(tile, destroy, deleteAtIndex)\<close>; \<open>None\<close> is an \<^verbatim>\<open>undefined\<close> index.\<close>

definition unloadTile ::
  "(tile \<Rightarrow> tile) \<Rightarrow> tile_ref \<Rightarrow> bool \<Rightarrow> nat option \<Rightarrow> tilecache \<Rightarrow> error + tilecache" where
  "unloadTile un tile destr deleteAtIndex s =
     (case unloadCaches tile destr (priv_caches (tiles s tile)) s of
        Inl e \<Rightarrow> Inl e
      | Inr s1 \<Rightarrow>
          Inr (log [TileUnload tile, TileUnloadedEvent tile (tiledImage (tiles s1 tile)) destr]
                 (s1\<lparr>priv_tilesLoaded :=
                        (case deleteAtIndex of
                           None \<Rightarrow> priv_tilesLoaded s1
                         | Some i \<Rightarrow> splice1 i (priv_tilesLoaded s1)),
                      tiles := (tiles s1)(tile := un (tiles s1 tile))\<rparr>)))"

text \<open>\<^verbatim>\<open>cacheTile\<close>, first part (from the entry to the \<^verbatim>\<open>_needsDraw\<close> assignment after
  \<^verbatim>\<open>addTile\<close>): resolve the key, find or create the record, attach the tile. It returns the
  state, the record the tile was given to and the resolved key.\<close>

definition cacheTile_attach ::
  "convertor \<Rightarrow> options \<Rightarrow> tilecache \<Rightarrow> error + tilecache \<times> cache_record \<times> string" where
  "cacheTile_attach cv opts s =
     (let theTile = tiles s (o_tile opts);
          a0 = (if cacheKey theTile = []
                then [ConsoleAssert ''[TileCache.cacheTile] options.tile.cacheKey is required'']
                else []);
          key = (if o_cacheKey opts = [] then cacheKey theTile else o_cacheKey opts);
          found = getCacheRecord s key;
          dat = (case found of
                   None \<Rightarrow> (if o_data opts = Undefined then o_image opts else o_data opts)
                 | Some r \<Rightarrow> o_data opts);
          (s1, cacheRecord, a1) =
            (case found of
               None \<Rightarrow>
                 (s\<lparr>priv_cachesLoaded := AList.update key new_CacheRecord (priv_cachesLoaded s),
                    priv_cachesLoadedCount := priv_cachesLoadedCount s + 1\<rparr>,
                  new_CacheRecord,
                  (if o_data opts = Undefined
                   then [ConsoleError ''[TileCache.cacheTile] options.image was renamed to options.data.'']
                   else []) @
                  (if dat = Undefined \<or> dat = Null \<or> dat = JBool False
                   then [ConsoleAssert ''[TileCache.cacheTile] options.data is required to create an CacheRecord'']
                   else []))
             | Some r \<Rightarrow>
                 if priv_destroyed r
                 then (case revive r of
                         (r', es) \<Rightarrow>
                           ((store_record key r' s)
                              \<lparr>priv_zombiesLoaded := AList.delete key (priv_zombiesLoaded (store_record key r' s)),
                               priv_zombiesLoadedCount := priv_zombiesLoadedCount s - 1\<rparr>,
                            r', es))
                 else (s, r, []));
          typ = (if truthy (o_dataType opts) then o_dataType opts else guessType cv dat);
          a2 = (if truthy (o_dataType opts) then []
                else [ConsoleError ''[TileCache.cacheTile] options.dataType is newly required.'',
                      GuessType dat])
      in case addTile (o_tile opts) dat typ cacheRecord of
           Inl e \<Rightarrow> Inl e
         | Inr rec' \<Rightarrow>
             Inr (log (a0 @ a1 @ a2 @
                       (if key = cacheKey theTile then [NeedsDrawOfTile (o_tile opts)] else []))
                    (store_record key rec' s1),
                  rec', key))"

text \<open>The victim scan of \<^verbatim>\<open>cacheTile\<close>:
  \<^verbatim>\<open>for (let i = this._tilesLoaded.length - 1; i >= 0; i--)\<close>. The counter \<open>Suc i\<close> stands
  before index \<open>i\<close>; \<open>worst\<close> is \<^verbatim>\<open>(worstTileIndex, worstTile)\<close>, \<open>None\<close> while
  \<^verbatim>\<open>worstTile\<close> is \<^verbatim>\<open>null\<close>.\<close>

fun scanWorst ::
  "(tile_ref \<Rightarrow> tile) \<Rightarrow> int \<Rightarrow> tile_ref list \<Rightarrow> nat \<Rightarrow> (nat \<times> tile_ref) option \<Rightarrow> (nat \<times> tile_ref) option" where
  "scanWorst h cutoff tilesLoaded 0 worst = worst"
| "scanWorst h cutoff tilesLoaded (Suc i) worst =
     (let prevTile = tilesLoaded ! i in
      if level (h prevTile) \<le> cutoff \<or> beingDrawn (h prevTile)
      then scanWorst h cutoff tilesLoaded i worst
      else (case worst of
              None \<Rightarrow> scanWorst h cutoff tilesLoaded i (Some (i, prevTile))
            | Some (worstTileIndex, worstTile) \<Rightarrow>
                (let prevTime = lastTouchTime (h prevTile);
                     worstTime = lastTouchTime (h worstTile);
                     prevLevel = level (h prevTile);
                     worstLevel = level (h worstTile)
                 in if prevTime < worstTime \<or> (prevTime = worstTime \<and> prevLevel > worstLevel)
                    then scanWorst h cutoff tilesLoaded i (Some (i, prevTile))
                    else scanWorst h cutoff tilesLoaded i worst)))"

text \<open>\<^verbatim>\<open>cacheTile\<close>, second part: the eviction pass. It returns the state and
  \<^verbatim>\<open>worstTileIndex\<close> (\<open>None\<close> for -1). The \<^verbatim>\<open>for ... in\<close> loop over the zombies stops
  after its first key.\<close>

definition cacheTile_evict ::
  "(tile \<Rightarrow> tile) \<Rightarrow> int \<Rightarrow> tilecache \<Rightarrow> error + tilecache \<times> nat option" where
  "cacheTile_evict un cutoff s =
     (if priv_cachesLoadedCount s + priv_zombiesLoadedCount s > priv_maxCacheItemCount s
      then (if priv_zombiesLoadedCount s > 0
            then (case priv_zombiesLoaded s of
                    [] \<Rightarrow> Inr (s, None)
                  | (zombie, z) # rest \<Rightarrow>
                      (case destroy z of
                         Inl e \<Rightarrow> Inl e
                       | Inr (z', es) \<Rightarrow>
                           Inr (log es
                                  (s\<lparr>priv_zombiesLoaded := AList.delete zombie (priv_zombiesLoaded s),
                                     priv_zombiesLoadedCount := priv_zombiesLoadedCount s - 1\<rparr>),
                                None)))
            else (case scanWorst (tiles s) cutoff (priv_tilesLoaded s) (length (priv_tilesLoaded s)) None of
                    None \<Rightarrow> Inr (s, None)
                  | Some (worstTileIndex, worstTile) \<Rightarrow>
                      (case unloadTile un worstTile True None s of
                         Inl e \<Rightarrow> Inl e
                       | Inr s' \<Rightarrow> Inr (s', Some worstTileIndex))))
      else Inr (s, None))"

text \<open>\<^verbatim>\<open>cacheTile\<close>, last part: \<^verbatim>\<open>insertionIndex\<close> is the length of \<^verbatim>\<open>_tilesLoaded\<close> at
  entry, or \<^verbatim>\<open>worstTileIndex\<close> when a tile was unloaded; neither exceeds the length, so the
  assignment either replaces an element or appends.\<close>

definition cacheTile_insert :: "tile_ref \<Rightarrow> nat \<Rightarrow> nat option \<Rightarrow> tilecache \<Rightarrow> tilecache" where
  "cacheTile_insert theTile len0 worstTileIndex s =
     (let insertionIndex = (case worstTileIndex of None \<Rightarrow> len0 | Some w \<Rightarrow> w) in
      if cacheSize (tiles s theTile) = 0
      then s\<lparr>priv_tilesLoaded :=
               (if insertionIndex < length (priv_tilesLoaded s)
                then (priv_tilesLoaded s)[insertionIndex := theTile]
                else priv_tilesLoaded s @ [theTile])\<rparr>
      else (case worstTileIndex of
              None \<Rightarrow> s
            | Some w \<Rightarrow> s\<lparr>priv_tilesLoaded := splice1 insertionIndex (priv_tilesLoaded s)\<rparr>))"

definition cacheTile ::
  "(tile \<Rightarrow> tile) \<Rightarrow> convertor \<Rightarrow> options \<Rightarrow> tilecache \<Rightarrow> error + tilecache" where
  "cacheTile un cv opts s =
     (case cacheTile_attach cv opts s of
        Inl e \<Rightarrow> Inl e
      | Inr (s1, cacheRecord, key) \<Rightarrow>
          (case cacheTile_evict un (o_cutoff opts) s1 of
             Inl e \<Rightarrow> Inl e
           | Inr (s2, worstTileIndex) \<Rightarrow>
               Inr (cacheTile_insert (o_tile opts) (length (priv_tilesLoaded s)) worstTileIndex s2)))"

text \<open>\<^verbatim>\<open>clearTilesFor(tiledImage)\<close>: the loop that destroys every zombie, and the backward
  loop over \<^verbatim>\<open>_tilesLoaded\<close>. \<open>zombieCache\<close> is \<^verbatim>\<open>tiledImage._zombieCache\<close>.\<close>

fun destroyZombies :: "(string \<times> cache_record) list \<Rightarrow> effect list \<Rightarrow> error + effect list" where
  "destroyZombies [] es = Inr es"
| "destroyZombies ((zombie, z) # rest) es =
     (case destroy z of
        Inl e \<Rightarrow> Inl e
      | Inr (z', es') \<Rightarrow> destroyZombies rest (es @ es'))"

fun clearLoop ::
  "(tile \<Rightarrow> tile) \<Rightarrow> nat \<Rightarrow> bool \<Rightarrow> nat \<Rightarrow> tilecache \<Rightarrow> error + tilecache" where
  "clearLoop un timg destr 0 s = Inr s"
| "clearLoop un timg destr (Suc i) s =
     (if i < length (priv_tilesLoaded s)
      then (let t = priv_tilesLoaded s ! i in
            if tiledImage (tiles s t) = timg
            then (if \<not> tile_loaded (tiles s t)
                  then clearLoop un timg destr i (s\<lparr>priv_tilesLoaded := splice1 i (priv_tilesLoaded s)\<rparr>)
                  else (case unloadTile un t destr (Some i) s of
                          Inl e \<Rightarrow> Inl e
                        | Inr s' \<Rightarrow> clearLoop un timg destr i s'))
            else clearLoop un timg destr i s)
      else Inl TypeError)"

definition clearTilesFor ::
  "(tile \<Rightarrow> tile) \<Rightarrow> nat \<Rightarrow> bool \<Rightarrow> tilecache \<Rightarrow> error + tilecache" where
  "clearTilesFor un timg zombieCache s =
     (let cacheOverflows =
            (priv_cachesLoadedCount s + priv_zombiesLoadedCount s > priv_maxCacheItemCount s)
      in if zombieCache \<and> cacheOverflows \<and> priv_zombiesLoadedCount s > 0
         then (case destroyZombies (priv_zombiesLoaded s) [] of
                 Inl e \<Rightarrow> Inl e
               | Inr es \<Rightarrow>
                   clearLoop un timg
                     (\<not> zombieCache \<or> priv_cachesLoadedCount s > priv_maxCacheItemCount s)
                     (length (priv_tilesLoaded s))
                     (log es (s\<lparr>priv_zombiesLoaded := [], priv_zombiesLoadedCount := 0\<rparr>)))
         else clearLoop un timg (\<not> zombieCache \<or> cacheOverflows) (length (priv_tilesLoaded s)) s)"

section \<open>Operation sequences\<close>

datatype operation =
    CacheTile options
  | UnloadCacheForTile tile_ref string bool
  | UnloadTile tile_ref bool "nat option"
  | ClearTilesFor nat bool

fun step :: "(tile \<Rightarrow> tile) \<Rightarrow> convertor \<Rightarrow> operation \<Rightarrow> tilecache \<Rightarrow> error + tilecache" where
  "step un cv (CacheTile opts) s = cacheTile un cv opts s"
| "step un cv (UnloadCacheForTile tile key destr) s =
     (case unloadCacheForTile tile key destr s of Inl e \<Rightarrow> Inl e | Inr (s', b) \<Rightarrow> Inr s')"
| "step un cv (UnloadTile tile destr deleteAtIndex) s = unloadTile un tile destr deleteAtIndex s"
| "step un cv (ClearTilesFor timg zombieCache) s = clearTilesFor un timg zombieCache s"

fun run :: "(tile \<Rightarrow> tile) \<Rightarrow> convertor \<Rightarrow> operation list \<Rightarrow> tilecache \<Rightarrow> error + tilecache" where
  "run un cv [] s = Inr s"
| "run un cv (x # xs) s = (case step un cv x s of Inl e \<Rightarrow> Inl e | Inr s' \<Rightarrow> run un cv xs s')"

section \<open>Properties of the specification\<close>

text \<open>The two tiers with their counters, as one value.\<close>

definition tiers ::
  "tilecache \<Rightarrow> (string \<times> cache_record) list \<times> int \<times> (string \<times> cache_record) list \<times> int" where
  "tiers s =
     (priv_cachesLoaded s, priv_cachesLoadedCount s, priv_zombiesLoaded s, priv_zombiesLoadedCount s)"

text \<open>The tier invariant of the specification: every record in the live tier has at least
  one tile, every record in the zombie tier has none and is not destroyed.\<close>

definition live_ok :: "cache_record \<Rightarrow> bool" where
  "live_ok r = (1 \<le> getTileCount r)"

definition zombie_ok :: "cache_record \<Rightarrow> bool" where
  "zombie_ok r = (getTileCount r = 0 \<and> \<not> priv_destroyed r)"

definition tier_invariant :: "tilecache \<Rightarrow> bool" where
  "tier_invariant s =
     (list_all live_ok (map snd (priv_cachesLoaded s)) \<and>
      list_all zombie_ok (map snd (priv_zombiesLoaded s)))"

text \<open>A tile may be chosen by the victim scan when it is above the cutoff and not being
  drawn; \<open>evict_before h a b\<close> orders tiles by \<open>(lastTouchTime, - level)\<close>, lexicographically.\<close>

definition admissible :: "(tile_ref \<Rightarrow> tile) \<Rightarrow> int \<Rightarrow> tile_ref \<Rightarrow> bool" where
  "admissible h cutoff t = (cutoff < level (h t) \<and> \<not> beingDrawn (h t))"

definition evict_before :: "(tile_ref \<Rightarrow> tile) \<Rightarrow> tile_ref \<Rightarrow> tile_ref \<Rightarrow> bool" where
  "evict_before h a b =
     (lastTouchTime (h a) < lastTouchTime (h b) \<or>
      (lastTouchTime (h a) = lastTouchTime (h b) \<and> level (h b) \<le> level (h a)))"

text \<open>The invariant of the victim scan before index \<open>n\<close>: \<open>worst\<close> is admissible and
  ordered before every admissible tile at an index from \<open>n\<close> on, or there is none.\<close>

definition scan_inv :: "(tile_ref \<Rightarrow> tile) \<Rightarrow> int \<Rightarrow> tile_ref list \<Rightarrow> nat \<Rightarrow> (nat \<times> tile_ref) option \<Rightarrow> bool" where
  "scan_inv h c ts n worst =
     (case worst of
        None \<Rightarrow> (\<forall>j. n \<le> j \<and> j < length ts \<longrightarrow> \<not> admissible h c (ts ! j))
      | Some (w, t) \<Rightarrow>
          n \<le> w \<and> w < length ts \<and> ts ! w = t \<and> admissible h c t \<and>
          (\<forall>j. n \<le> j \<and> j < length ts \<and> admissible h c (ts ! j) \<longrightarrow> evict_before h t (ts ! j)))"

text \<open>What the cache operations keep true of a cache: the records in both tiers are
  populated and not destroyed, the zombie keys are distinct and counted by
  \<^verbatim>\<open>_zombiesLoadedCount\<close>, and no key is in both tiers.\<close>

definition record_ok :: "cache_record \<Rightarrow> bool" where
  "record_ok r =
     (\<not> priv_destroyed r \<and> priv_tiles r \<noteq> None \<and> (loaded r \<or> priv_promise r \<noteq> None))"

definition tilecache_ok :: "tilecache \<Rightarrow> bool" where
  "tilecache_ok s =
     (list_all record_ok (map snd (priv_cachesLoaded s)) \<and>
      list_all record_ok (map snd (priv_zombiesLoaded s)) \<and>
      distinct (map fst (priv_zombiesLoaded s)) \<and>
      priv_zombiesLoadedCount s = int (length (priv_zombiesLoaded s)) \<and>
      dom (map_of (priv_cachesLoaded s)) \<inter> dom (map_of (priv_zombiesLoaded s)) = {})"



section \<open>Example inputs\<close>

definition ex_convertor_none :: convertor where
  "ex_convertor_none = \<lparr>getConversionPath = (\<lambda>from to. None), guessType = (\<lambda>d. JStr ''raw'')\<rparr>"

definition ex_convertor_empty :: convertor where
  "ex_convertor_empty = \<lparr>getConversionPath = (\<lambda>from to. Some []), guessType = (\<lambda>d. JStr ''raw'')\<rparr>"

definition ex_convertor_falsy :: convertor where
  "ex_convertor_falsy =
     \<lparr>getConversionPath =
        (\<lambda>from to. Some [\<lparr>origin = from, target = to, transform = (\<lambda>x. Undefined)\<rparr>]),
      guessType = (\<lambda>d. JStr ''raw'')\<rparr>"

definition ex_convertor_ok :: convertor where
  "ex_convertor_ok =
     \<lparr>getConversionPath =
        (\<lambda>from to. Some [\<lparr>origin = from, target = to, transform = (\<lambda>x. JObj 2)\<rparr>]),
      guessType = (\<lambda>d. JStr ''raw'')\<rparr>"

text \<open>A loaded record in format \<open>A\<close> with payload \<open>JObj 1\<close> and one tile.\<close>

definition ex_record :: cache_record where
  "ex_record =
     \<lparr>priv_tiles = Some [1], priv_data = JObj 1, priv_type = JStr ''A'', loaded = True,
      priv_promise = Some (JObj 1), priv_destroyed = False, priv_conversionJobQueue = None\<rparr>"

definition ex_tile :: "string \<Rightarrow> int \<Rightarrow> int \<Rightarrow> tile" where
  "ex_tile key lvl time =
     \<lparr>cacheKey = key, level = lvl, beingDrawn = False, lastTouchTime = time, tiledImage = 0,
      priv_caches = [key], cacheSize = 0, tile_loaded = True\<rparr>"

definition ex_heapA :: "tile_ref \<Rightarrow> tile" where
  "ex_heapA = (\<lambda>t. ex_tile ''A'' 1 0)"

definition ex_opts :: "tile_ref \<Rightarrow> jsval \<Rightarrow> options" where
  "ex_opts t d =
     \<lparr>o_tile = t, o_cacheKey = [], o_image = Undefined, o_data = d, o_dataType = JStr ''raw'',
      o_cutoff = 0\<rparr>"

definition ex_unload :: "tile \<Rightarrow> tile" where
  "ex_unload t = t\<lparr>priv_caches := [], cacheSize := 0, tile_loaded := False\<rparr>"

text \<open>The record of key \<open>A\<close> after its only tile was unloaded without destruction, and the
  cache that holds it as a zombie.\<close>

definition ex_zombie :: cache_record where
  "ex_zombie =
     \<lparr>priv_tiles = Some [], priv_data = JObj 1, priv_type = JStr ''raw'', loaded = True,
      priv_promise = Some (JObj 1), priv_destroyed = False, priv_conversionJobQueue = None\<rparr>"

definition ex_zombie_state :: tilecache where
  "ex_zombie_state =
     \<lparr>priv_maxCacheItemCount = 3, priv_tilesLoaded = [1],
      priv_zombiesLoaded = [(''A'', ex_zombie)], priv_zombiesLoadedCount = 1,
      priv_cachesLoaded = [], priv_cachesLoadedCount = 0,
      tiles = ex_heapA, effects = [NeedsDrawOfTile 1]\<rparr>"

text \<open>The records and caches of the eviction scenarios: three live tiles with
  \<open>(lastTouchTime, level)\<close> = (10, 2), (10, 5), (20, 2) under the keys \<open>K1\<close>, \<open>K2\<close>, \<open>K3\<close>
  and a fourth tile with key \<open>K4\<close>; capacity 3.\<close>

definition live_keys :: "tilecache \<Rightarrow> string list" where
  "live_keys s = map fst (priv_cachesLoaded s)"

definition ex_heap5 :: "tile_ref \<Rightarrow> tile" where
  "ex_heap5 =
     (\<lambda>t. if t = 1 then ex_tile ''K1'' 2 10
          else if t = 2 then ex_tile ''K2'' 5 10
          else if t = 3 then ex_tile ''K3'' 2 20
          else ex_tile ''K4'' 2 30)"

definition ex_live :: "nat \<Rightarrow> cache_record" where
  "ex_live i =
     \<lparr>priv_tiles = Some [i], priv_data = JObj i, priv_type = JStr ''raw'', loaded = True,
      priv_promise = Some (JObj i), priv_destroyed = False, priv_conversionJobQueue = None\<rparr>"

definition ex_state5 :: tilecache where
  "ex_state5 =
     \<lparr>priv_maxCacheItemCount = 3, priv_tilesLoaded = [1, 2, 3],
      priv_zombiesLoaded = [], priv_zombiesLoadedCount = 0,
      priv_cachesLoaded = [(''K1'', ex_live 1), (''K2'', ex_live 2), (''K3'', ex_live 3)],
      priv_cachesLoadedCount = 3,
      tiles = ex_heap5, effects = []\<rparr>"

text \<open>\<open>ex_state5\<close> after the first part of \<^verbatim>\<open>cacheTile\<close> for the fourth tile.\<close>

definition ex_state5_attached :: tilecache where
  "ex_state5_attached =
     \<lparr>priv_maxCacheItemCount = 3, priv_tilesLoaded = [1, 2, 3],
      priv_zombiesLoaded = [], priv_zombiesLoadedCount = 0,
      priv_cachesLoaded =
        [(''K1'', ex_live 1), (''K2'', ex_live 2), (''K3'', ex_live 3), (''K4'', ex_live 4)],
      priv_cachesLoadedCount = 4,
      tiles = ex_heap5, effects = [NeedsDrawOfTile 4]\<rparr>"

text \<open>Three live records and one zombie, and the state after the first part of
  \<^verbatim>\<open>cacheTile\<close> for the fourth tile.\<close>

definition ex_state4 :: tilecache where
  "ex_state4 =
     \<lparr>priv_maxCacheItemCount = 3, priv_tilesLoaded = [1, 2, 3],
      priv_zombiesLoaded = [(''Z'', ex_zombie)], priv_zombiesLoadedCount = 1,
      priv_cachesLoaded = [(''K1'', ex_live 1), (''K2'', ex_live 2), (''K3'', ex_live 3)],
      priv_cachesLoadedCount = 3,
      tiles = ex_heap5, effects = []\<rparr>"

definition ex_state4_attached :: tilecache where
  "ex_state4_attached =
     \<lparr>priv_maxCacheItemCount = 3, priv_tilesLoaded = [1, 2, 3],
      priv_zombiesLoaded = [(''Z'', ex_zombie)], priv_zombiesLoadedCount = 1,
      priv_cachesLoaded =
        [(''K1'', ex_live 1), (''K2'', ex_live 2), (''K3'', ex_live 3), (''K4'', ex_live 4)],
      priv_cachesLoadedCount = 4,
      tiles = ex_heap5, effects = [NeedsDrawOfTile 4]\<rparr>"

text \<open>A call for tile 4 under the key \<open>K1\<close> with neither data nor image.\<close>

definition ex_opts_nodata :: options where
  "ex_opts_nodata =
     \<lparr>o_tile = 4, o_cacheKey = ''K1'', o_image = Undefined, o_data = Undefined,
      o_dataType = JStr ''raw'', o_cutoff = 0\<rparr>"

text \<open>A loaded record with two queued jobs, as left by \<^verbatim>\<open>transformTo\<close> and \<^verbatim>\<open>setDataAs\<close>
  on a record that was not yet populated and by \<^verbatim>\<open>addTile\<close> after them.\<close>

definition ex_queued :: cache_record where
  "ex_queued = ex_record\<lparr>priv_conversionJobQueue := Some [TransformJob (JStr ''B''), OverwriteJob (JObj 7) (JStr ''B'')]\<rparr>"






section \<open>Evaluation rules\<close>

lemmas ex_defs =
  ex_convertor_none_def ex_convertor_empty_def ex_convertor_falsy_def ex_convertor_ok_def
  ex_record_def ex_tile_def ex_heapA_def ex_opts_def ex_unload_def ex_zombie_def
  ex_zombie_state_def new_TileCache_def new_CacheRecord_def

lemmas record_defs =
  addTile_def removeTile_def getTileCount_def destroy_def revive_def priv_convert_def
  convert_steps_def priv_checkAwaitsConvert_def transformTo_def Let_def

lemmas cache_defs =
  cacheTile_def cacheTile_attach_def cacheTile_evict_def cacheTile_insert_def getCacheRecord_def
  store_record_def log_def unloadCacheForTile_def unloadTile_def splice1_def tiers_def Let_def

lemmas ex5_defs = ex_heap5_def ex_live_def ex_state5_def ex_state5_attached_def live_keys_def

lemmas ex4_defs = ex_state4_def ex_state4_attached_def ex_opts_nodata_def


section \<open>CacheRecord: adding tiles, converting, destroying\<close>

text \<open>Claim C7: on a record that is loaded (and, as every loaded record, not destroyed, with
  its tile list present), \<^verbatim>\<open>addTile(tile2, D2, type2)\<close> with a tile that is not attached
  leaves payload, format and promise as they are, ignores the data and type it was given,
  appends the tile and increases the tile count by one.\<close>

theorem addTile_loaded_keeps_payload:
  assumes "loaded r" and "\<not> priv_destroyed r" and "priv_tiles r = Some ts" and "tile2 \<notin> set ts"
  shows "\<exists>r'. addTile tile2 d2 t2 r = Inr r' \<and> priv_data r' = priv_data r \<and>
           priv_type r' = priv_type r \<and> priv_promise r' = priv_promise r \<and> loaded r' \<and>
           priv_tiles r' = Some (ts @ [tile2]) \<and> getTileCount r' = getTileCount r + 1"
  using assms by (simp add: addTile_def getTileCount_def)

theorem addTile_loaded_keeps_payload_witness:
  "loaded ex_record \<and> \<not> priv_destroyed ex_record \<and> priv_tiles ex_record = Some [1] \<and> 2 \<notin> set [1::nat] \<and>
   (\<exists>r'. addTile 2 (JObj 2) (JStr ''B'') ex_record = Inr r' \<and> priv_data r' = JObj 1 \<and>
      priv_type r' = JStr ''A'' \<and> priv_tiles r' = Some [1, 2] \<and> getTileCount r' = 2)"
proof -
  have h: "loaded ex_record" "\<not> priv_destroyed ex_record" "priv_tiles ex_record = Some [1]"
    "2 \<notin> set [1::nat]"
    by (simp_all add: ex_record_def)
  from addTile_loaded_keeps_payload [OF h, of "JObj 2" "JStr ''B''"] h
  show ?thesis by (auto simp: ex_record_def getTileCount_def)
qed

text \<open>Claim C3: when an edge resolves to a falsy value, \<^verbatim>\<open>_convert\<close> is to restore the
  original payload. The source assigns \<^verbatim>\<open>_this._data = from\<close>: on a record with payload
  \<open>JObj 1\<close> in format \<open>A\<close>, a failing conversion to \<open>B\<close> leaves the format tag \<open>A\<close> as the
  payload. Format, \<^verbatim>\<open>loaded\<close> and the value of the promise are restored.\<close>

theorem convert_falsy_stores_format_as_payload:
  "priv_data ex_record = JObj 1 \<and>
   priv_convert ex_convertor_falsy (JStr ''A'') (JStr ''B'') ex_record =
     (ex_record\<lparr>priv_data := JStr ''A''\<rparr>,
      [GetConversionPath (JStr ''A'') (JStr ''B''),
       Transform (JStr ''A'') (JStr ''B'') (JObj 1),
       ConsoleError ''[OpenSeadragon.convertor.convert] data mid result falsey value''])"
  by (simp add: ex_defs record_defs)

text \<open>Claim C6, as stated: with an empty sequence of edges as the conversion path the record
  would stay unchanged. An empty array is truthy, so \<^verbatim>\<open>_convert\<close> goes on and the format
  becomes the target.\<close>

theorem convert_empty_path_counterexample:
  "getConversionPath ex_convertor_empty (JStr ''A'') (JStr ''B'') = Some [] \<and>
   priv_type ex_record = JStr ''A'' \<and>
   priv_type (fst (priv_convert ex_convertor_empty (JStr ''A'') (JStr ''B'') ex_record)) = JStr ''B''"
  by (simp add: ex_defs record_defs)

text \<open>Claim C6, amended: when \<^verbatim>\<open>getConversionPath\<close> returns a falsy value (no route),
  \<^verbatim>\<open>_convert\<close> logs an error and leaves every member of the record unchanged.\<close>

theorem convert_no_path_unchanged:
  "getConversionPath cv from to = None \<Longrightarrow>
   priv_convert cv from to r =
     (r, [GetConversionPath from to,
          ConsoleError ''[OpenSeadragon.convertor.convert] Conversion cannot be done!''])"
  by (simp add: priv_convert_def convert_steps_def)

theorem convert_no_path_unchanged_witness:
  "getConversionPath ex_convertor_none (JStr ''A'') (JStr ''B'') = None \<and>
   fst (priv_convert ex_convertor_none (JStr ''A'') (JStr ''B'') ex_record) = ex_record"
  using convert_no_path_unchanged [of ex_convertor_none "JStr ''A''" "JStr ''B''" ex_record]
  by (simp add: ex_convertor_none_def)









text \<open>With queued jobs the two promises differ: the first call returns the promise of the
  conversion, a queued overwrite replaces the promise of the record, and the second call
  returns that one.\<close>

lemma transformTo_queued_overwrite:
  "fst (snd (transformTo ex_convertor_ok (JStr ''B'') ex_queued)) = RecordPromise (Some (JObj 2)) \<and>
   fst (snd (transformTo ex_convertor_ok (JStr ''B'')
               (fst (transformTo ex_convertor_ok (JStr ''B'') ex_queued)))) =
     RecordPromise (Some (JObj 7))"
  by (simp add: ex_queued_def ex_defs record_defs priv_overwriteData_def priv_triggerNeedsDraw_def)

text \<open>Claim C9: no public operation throws. \<^verbatim>\<open>destroy()\<close> on a record that was never
  populated reads \<^verbatim>\<open>this._promise.then\<close> with \<^verbatim>\<open>_promise === null\<close>, a TypeError.\<close>

theorem destroy_fresh_record_throws:
  "destroy new_CacheRecord = Inl TypeError"
  by (simp add: destroy_def new_CacheRecord_def)

section \<open>TileCache: zombies\<close>

lemma ex_zombie_state_reached:
  "run ex_unload ex_convertor_none
     [CacheTile (ex_opts 1 (JObj 1)), UnloadCacheForTile 1 ''A'' False]
     (new_TileCache 3 ex_heapA) = Inr ex_zombie_state"
  by (simp add: ex_defs record_defs cache_defs)

text \<open>Claim C1: \<^verbatim>\<open>cacheTile\<close> on a key held in the zombie tier is to move the record to
  the live tier. The revive branch is guarded by \<^verbatim>\<open>cacheRecord._destroyed\<close>, which is false
  for a zombie: the tile is attached, the record stays in the zombie tier, the live tier stays
  empty and both counters keep their values.\<close>

theorem cacheTile_zombie_key_stays_zombie:
  "map_sum id tiers (cacheTile ex_unload ex_convertor_none (ex_opts 2 (JObj 2)) ex_zombie_state) =
     Inr ([], 0, [(''A'', ex_zombie\<lparr>priv_tiles := Some [2]\<rparr>)], 1)"
  by (simp add: ex_defs record_defs cache_defs)

text \<open>Claim C2: in every reachable state live records have a tile and zombie records have
  none. After caching a tile under \<open>A\<close>, unloading it without destruction and caching another
  tile under \<open>A\<close>, the zombie tier holds a record with one tile.\<close>

theorem tier_invariant_broken_after_recache:
  "map_sum id tier_invariant
     (run ex_unload ex_convertor_none
        [CacheTile (ex_opts 1 (JObj 1)), UnloadCacheForTile 1 ''A'' False,
         CacheTile (ex_opts 2 (JObj 2))]
        (new_TileCache 3 ex_heapA)) = Inr False"
  by (simp add: ex_defs record_defs cache_defs tier_invariant_def live_ok_def zombie_ok_def)


section \<open>TileCache: the victim scan\<close>

lemma evict_before_refl: "evict_before h a a"
  by (simp add: evict_before_def)

lemma evict_before_trans: "evict_before h a b \<Longrightarrow> evict_before h b c \<Longrightarrow> evict_before h a c"
  by (auto simp: evict_before_def)

lemma scan_inv_skip:
  assumes "scan_inv h c ts (Suc n) worst" and "\<not> admissible h c (ts ! n)"
  shows "scan_inv h c ts n worst"
proof -
  have *: "\<And>j. n \<le> j \<Longrightarrow> j = n \<or> Suc n \<le> j" by arith
  show ?thesis
    using assms unfolding scan_inv_def
    by (auto split: option.splits dest: *)
qed

lemma scan_inv_first:
  assumes "scan_inv h c ts (Suc n) None" and "admissible h c (ts ! n)" and "n < length ts"
  shows "scan_inv h c ts n (Some (n, ts ! n))"
proof -
  have *: "\<And>j. n \<le> j \<Longrightarrow> j = n \<or> Suc n \<le> j" by arith
  show ?thesis
    using assms unfolding scan_inv_def
    by (auto simp: evict_before_refl dest: *)
qed

lemma scan_inv_replace:
  assumes inv: "scan_inv h c ts (Suc n) (Some (w, t))" and adm: "admissible h c (ts ! n)"
    and len: "n < length ts" and eb: "evict_before h (ts ! n) t"
  shows "scan_inv h c ts n (Some (n, ts ! n))"
proof -
  have "evict_before h (ts ! n) (ts ! j)"
    if j: "n \<le> j" "j < length ts" "admissible h c (ts ! j)" for j
  proof (cases "j = n")
    case True
    then show ?thesis by (simp add: evict_before_refl)
  next
    case False
    with j(1) have "Suc n \<le> j" by simp
    with inv j(2,3) have "evict_before h t (ts ! j)" by (simp add: scan_inv_def)
    with eb show ?thesis by (rule evict_before_trans)
  qed
  with adm len show ?thesis by (simp add: scan_inv_def)
qed

lemma scan_inv_keep:
  assumes "scan_inv h c ts (Suc n) (Some (w, t))" and "evict_before h t (ts ! n)"
  shows "scan_inv h c ts n (Some (w, t))"
proof -
  have *: "\<And>j. n \<le> j \<Longrightarrow> j = n \<or> Suc n \<le> j" by arith
  show ?thesis
    using assms unfolding scan_inv_def
    by (auto dest: *)
qed

lemma scanWorst_inv:
  "n \<le> length ts \<Longrightarrow> scan_inv h c ts n worst \<Longrightarrow> scan_inv h c ts 0 (scanWorst h c ts n worst)"
proof (induction n arbitrary: worst)
  case 0
  then show ?case by simp
next
  case (Suc n)
  have len: "n < length ts" "n \<le> length ts" using Suc.prems(1) by simp_all
  show ?case
  proof (cases "admissible h c (ts ! n)")
    case False
    then have "scanWorst h c ts (Suc n) worst = scanWorst h c ts n worst"
      by (auto simp: admissible_def Let_def)
    with Suc.IH [OF len(2) scan_inv_skip [OF Suc.prems(2) False]] show ?thesis by simp
  next
    case True
    then have adm: "\<not> (level (h (ts ! n)) \<le> c \<or> beingDrawn (h (ts ! n)))"
      by (auto simp: admissible_def)
    show ?thesis
    proof (cases worst)
      case None
      with adm have "scanWorst h c ts (Suc n) worst = scanWorst h c ts n (Some (n, ts ! n))"
        by (simp add: Let_def)
      with Suc.IH [OF len(2) scan_inv_first [OF _ True len(1)]] Suc.prems(2) None
      show ?thesis by simp
    next
      case (Some p)
      obtain w t where p: "p = (w, t)" by (cases p)
      show ?thesis
      proof (cases "lastTouchTime (h (ts ! n)) < lastTouchTime (h t) \<or>
                    (lastTouchTime (h (ts ! n)) = lastTouchTime (h t) \<and> level (h t) < level (h (ts ! n)))")
        case better: True
        then have eb: "evict_before h (ts ! n) t" by (auto simp: evict_before_def)
        from better adm Some p
        have "scanWorst h c ts (Suc n) worst = scanWorst h c ts n (Some (n, ts ! n))"
          by (simp add: Let_def)
        with Suc.IH [OF len(2) scan_inv_replace [OF _ True len(1) eb]] Suc.prems(2) Some p
        show ?thesis by simp
      next
        case notbetter: False
        then have eb: "evict_before h t (ts ! n)" by (auto simp: evict_before_def)
        from notbetter adm Some p
        have "scanWorst h c ts (Suc n) worst = scanWorst h c ts n (Some (w, t))"
          by (auto simp: Let_def)
        with Suc.IH [OF len(2) scan_inv_keep [OF _ eb]] Suc.prems(2) Some p
        show ?thesis by simp
      qed
    qed
  qed
qed

lemma scanWorst_result:
  "scan_inv h c ts 0 (scanWorst h c ts (length ts) None)"
  by (rule scanWorst_inv) (auto simp: scan_inv_def)

text \<open>Claim C4: when, after attaching the tile, \<^verbatim>\<open>cacheTile\<close> finds the counters above
  the capacity with no zombie counted, and some tile of \<^verbatim>\<open>_tilesLoaded\<close> is above the cutoff
  and not being drawn, the tile it hands to \<^verbatim>\<open>unloadTile(worstTile, true)\<close> is such a tile
  and comes first in the order \<open>(lastTouchTime, - level)\<close> among all of them: the oldest touch
  time, and among equal touch times the highest level.\<close>

theorem cacheTile_evicts_oldest_deepest:
  assumes att: "cacheTile_attach cv opts s = Inr (s1, rec, key)"
    and over: "priv_maxCacheItemCount s1 < priv_cachesLoadedCount s1 + priv_zombiesLoadedCount s1"
    and nozombie: "\<not> 0 < priv_zombiesLoadedCount s1"
    and mem: "t0 \<in> set (priv_tilesLoaded s1)"
    and adm: "admissible (tiles s1) (o_cutoff opts) t0"
  shows "\<exists>w t. w < length (priv_tilesLoaded s1) \<and> priv_tilesLoaded s1 ! w = t \<and>
           admissible (tiles s1) (o_cutoff opts) t \<and>
           (\<forall>t' \<in> set (priv_tilesLoaded s1).
              admissible (tiles s1) (o_cutoff opts) t' \<longrightarrow> evict_before (tiles s1) t t') \<and>
           cacheTile un cv opts s =
             (case unloadTile un t True None s1 of
                Inl e \<Rightarrow> Inl e
              | Inr s2 \<Rightarrow>
                  Inr (cacheTile_insert (o_tile opts) (length (priv_tilesLoaded s)) (Some w) s2))"
proof -
  let ?ts = "priv_tilesLoaded s1"
  let ?c = "o_cutoff opts"
  let ?r = "scanWorst (tiles s1) ?c ?ts (length ?ts) None"
  have inv: "scan_inv (tiles s1) ?c ?ts 0 ?r" by (rule scanWorst_result)
  from mem obtain j where j: "j < length ?ts" "?ts ! j = t0"
    by (auto simp: in_set_conv_nth)
  have "?r \<noteq> None"
  proof
    assume "?r = None"
    with inv j adm show False by (auto simp: scan_inv_def)
  qed
  then obtain w t where r: "?r = Some (w, t)" by (cases ?r) auto
  with inv have props: "w < length ?ts" "?ts ! w = t" "admissible (tiles s1) ?c t"
    "\<forall>j. j < length ?ts \<and> admissible (tiles s1) ?c (?ts ! j) \<longrightarrow> evict_before (tiles s1) t (?ts ! j)"
    by (auto simp: scan_inv_def)
  have least: "\<forall>t' \<in> set ?ts. admissible (tiles s1) ?c t' \<longrightarrow> evict_before (tiles s1) t t'"
    using props(4) by (auto simp: in_set_conv_nth)
  have "cacheTile_evict un ?c s1 =
          (case unloadTile un t True None s1 of Inl e \<Rightarrow> Inl e | Inr s2 \<Rightarrow> Inr (s2, Some w))"
    using over nozombie r by (simp add: cacheTile_evict_def)
  with att have "cacheTile un cv opts s =
             (case unloadTile un t True None s1 of
                Inl e \<Rightarrow> Inl e
              | Inr s2 \<Rightarrow>
                  Inr (cacheTile_insert (o_tile opts) (length (priv_tilesLoaded s)) (Some w) s2))"
    by (simp add: cacheTile_def split: sum.splits)
  with least props(1-3) show ?thesis by blast
qed

lemma ex_state5_reached:
  "run ex_unload ex_convertor_none
     [CacheTile (ex_opts 1 (JObj 1)), CacheTile (ex_opts 2 (JObj 2)), CacheTile (ex_opts 3 (JObj 3))]
     (new_TileCache 3 ex_heap5) =
   Inr (ex_state5\<lparr>effects := [NeedsDrawOfTile 1, NeedsDrawOfTile 2, NeedsDrawOfTile 3]\<rparr>)"
  by (simp add: ex_defs ex5_defs record_defs cache_defs)

lemma ex_state5_attach:
  "cacheTile_attach ex_convertor_none (ex_opts 4 (JObj 4)) ex_state5 =
     Inr (ex_state5_attached, ex_live 4, ''K4'')"
  by (simp add: ex_defs ex5_defs record_defs cache_defs)

lemma ex_scan5: "scanWorst ex_heap5 0 [1, 2, 3] 3 None = Some (1, 2)"
  by (simp add: ex_defs ex5_defs eval_nat_numeral)

text \<open>The scenario of Claim C4: with tiles (10, 2), (10, 5), (20, 2) and cutoff 0 the scan
  chooses index 1, the tile (10, 5); \<^verbatim>\<open>cacheTile\<close> for the fourth tile removes the record
  \<open>K2\<close> and puts the fourth tile in its place.\<close>

theorem cacheTile_evicts_oldest_deepest_witness:
  "cacheTile_attach ex_convertor_none (ex_opts 4 (JObj 4)) ex_state5 =
     Inr (ex_state5_attached, ex_live 4, ''K4'') \<and>
   priv_maxCacheItemCount ex_state5_attached
     < priv_cachesLoadedCount ex_state5_attached + priv_zombiesLoadedCount ex_state5_attached \<and>
   \<not> 0 < priv_zombiesLoadedCount ex_state5_attached \<and>
   2 \<in> set (priv_tilesLoaded ex_state5_attached) \<and>
   admissible (tiles ex_state5_attached) (o_cutoff (ex_opts 4 (JObj 4))) 2 \<and>
   (\<exists>w t. w < length (priv_tilesLoaded ex_state5_attached) \<and>
      priv_tilesLoaded ex_state5_attached ! w = t \<and>
      admissible (tiles ex_state5_attached) (o_cutoff (ex_opts 4 (JObj 4))) t \<and>
      (\<forall>t' \<in> set (priv_tilesLoaded ex_state5_attached).
         admissible (tiles ex_state5_attached) (o_cutoff (ex_opts 4 (JObj 4))) t' \<longrightarrow>
         evict_before (tiles ex_state5_attached) t t') \<and>
      cacheTile ex_unload ex_convertor_none (ex_opts 4 (JObj 4)) ex_state5 =
        (case unloadTile ex_unload t True None ex_state5_attached of
           Inl e \<Rightarrow> Inl e
         | Inr s2 \<Rightarrow>
             Inr (cacheTile_insert (o_tile (ex_opts 4 (JObj 4)))
                    (length (priv_tilesLoaded ex_state5)) (Some w) s2))) \<and>
   scanWorst ex_heap5 0 [1, 2, 3] 3 None = Some (1, 2) \<and>
   map_sum id live_keys (cacheTile ex_unload ex_convertor_none (ex_opts 4 (JObj 4)) ex_state5) =
     Inr [''K1'', ''K3'', ''K4''] \<and>
   map_sum id priv_tilesLoaded (cacheTile ex_unload ex_convertor_none (ex_opts 4 (JObj 4)) ex_state5) =
     Inr [1, 4, 3]"
proof -
  have h: "priv_maxCacheItemCount ex_state5_attached
     < priv_cachesLoadedCount ex_state5_attached + priv_zombiesLoadedCount ex_state5_attached"
    "\<not> 0 < priv_zombiesLoadedCount ex_state5_attached"
    "2 \<in> set (priv_tilesLoaded ex_state5_attached)"
    "admissible (tiles ex_state5_attached) (o_cutoff (ex_opts 4 (JObj 4))) 2"
    by (simp_all add: ex5_defs ex_defs admissible_def)
  have run: "map_sum id live_keys (cacheTile ex_unload ex_convertor_none (ex_opts 4 (JObj 4)) ex_state5) =
     Inr [''K1'', ''K3'', ''K4'']"
    "map_sum id priv_tilesLoaded (cacheTile ex_unload ex_convertor_none (ex_opts 4 (JObj 4)) ex_state5) =
     Inr [1, 4, 3]"
    by (simp_all add: ex_defs ex5_defs record_defs cache_defs eval_nat_numeral)
  from cacheTile_evicts_oldest_deepest [OF ex_state5_attach h, of ex_unload]
    ex_state5_attach h ex_scan5 run
  show ?thesis by blast
qed

section \<open>TileCache: what every operation preserves\<close>

lemma all_update:
  "list_all P (map snd al) \<Longrightarrow> P v \<Longrightarrow> list_all P (map snd (AList.update k v al))"
  by (induction al) auto

lemma all_delete:
  "list_all P (map snd al) \<Longrightarrow> list_all P (map snd (AList.delete k al))"
  by (induction al) auto

lemma all_lookup:
  "map_of al k = Some r \<Longrightarrow> list_all P (map snd al) \<Longrightarrow> P r"
  by (induction al) (auto split: if_splits)

lemma length_update_present:
  "map_of al k = Some r \<Longrightarrow> length (AList.update k v al) = length al"
  by (induction al) (auto split: if_splits)

lemma length_update_absent:
  "map_of al k = None \<Longrightarrow> length (AList.update k v al) = Suc (length al)"
  by (induction al) (auto split: if_splits)

lemma delete_head:
  "distinct (map fst ((k, z) # rest)) \<Longrightarrow> AList.delete k ((k, z) # rest) = rest"
  by (simp add: image_iff)

lemma addTile_ok:
  assumes "record_ok r \<or> r = new_CacheRecord"
  shows "\<exists>r' ts. addTile t d ty r = Inr r' \<and> record_ok r' \<and> priv_tiles r' = Some ts \<and> t \<in> set ts"
  using assms
  by (auto simp: addTile_def record_ok_def new_CacheRecord_def)

lemma removeTile_ok:
  assumes "record_ok r"
  shows "\<exists>r' b es. removeTile t r = Inr (r', b, es) \<and> record_ok r'"
  using assms by (auto simp: removeTile_def record_ok_def)

lemma destroy_ok:
  assumes "record_ok r"
  shows "\<exists>r' d. destroy r = Inr (r', [ConvertorDestroy d (priv_type r)]) \<and> priv_destroyed r'"
  using assms by (auto simp: destroy_def record_ok_def Let_def)

lemma log_fields [simp]:
  "priv_cachesLoaded (log es s) = priv_cachesLoaded s"
  "priv_zombiesLoaded (log es s) = priv_zombiesLoaded s"
  "priv_zombiesLoadedCount (log es s) = priv_zombiesLoadedCount s"
  "priv_cachesLoadedCount (log es s) = priv_cachesLoadedCount s"
  "priv_tilesLoaded (log es s) = priv_tilesLoaded s"
  "priv_maxCacheItemCount (log es s) = priv_maxCacheItemCount s"
  "tiles (log es s) = tiles s"
  "effects (log es s) = effects s @ es"
  by (simp_all add: log_def)

lemma tilecache_ok_log [simp]: "tilecache_ok (log es s) = tilecache_ok s"
  by (simp add: tilecache_ok_def)

lemma ok_drop_live:
  assumes "tilecache_ok s"
  shows "tilecache_ok (s\<lparr>priv_cachesLoaded := AList.delete key (priv_cachesLoaded s),
                         priv_cachesLoadedCount := n\<rparr>)"
  using assms by (auto simp: tilecache_ok_def all_delete AList.delete_conv')

lemma ok_update_live:
  assumes "tilecache_ok s" and "map_of (priv_cachesLoaded s) key = Some r0" and "record_ok r"
  shows "tilecache_ok (s\<lparr>priv_cachesLoaded := AList.update key r (priv_cachesLoaded s)\<rparr>)"
  using assms by (auto simp: tilecache_ok_def all_update AList.update_conv')

lemma ok_update_zombie:
  assumes "tilecache_ok s" and "map_of (priv_zombiesLoaded s) key = Some r0" and "record_ok r"
  shows "tilecache_ok (s\<lparr>priv_zombiesLoaded := AList.update key r (priv_zombiesLoaded s)\<rparr>)"
  using assms
  by (auto simp: tilecache_ok_def all_update AList.update_conv' AList.distinct_update
      length_update_present)

lemma ok_to_zombie:
  assumes "tilecache_ok s" and "map_of (priv_cachesLoaded s) key = Some r0" and "record_ok r"
  shows "tilecache_ok (s\<lparr>priv_zombiesLoaded := AList.update key r (priv_zombiesLoaded s),
                         priv_zombiesLoadedCount := priv_zombiesLoadedCount s + 1,
                         priv_cachesLoaded := AList.delete key (priv_cachesLoaded s),
                         priv_cachesLoadedCount := n\<rparr>)"
proof -
  from assms(1,2) have "map_of (priv_zombiesLoaded s) key = None"
    by (auto simp: tilecache_ok_def)
  with assms show ?thesis
    by (auto simp: tilecache_ok_def all_update all_delete AList.update_conv' AList.delete_conv'
        AList.distinct_update length_update_absent)
qed

lemma unloadCacheForTile_ok:
  assumes ok: "tilecache_ok s"
  shows "\<exists>s' b. unloadCacheForTile t key d s = Inr (s', b) \<and> tilecache_ok s' \<and>
           priv_tilesLoaded s' = priv_tilesLoaded s \<and> tiles s' = tiles s \<and>
           priv_maxCacheItemCount s' = priv_maxCacheItemCount s"
proof (cases "map_of (priv_cachesLoaded s) key")
  case None
  with ok show ?thesis by (auto simp: unloadCacheForTile_def)
next
  case (Some r)
  with ok have "record_ok r" by (auto simp: tilecache_ok_def dest: all_lookup)
  from removeTile_ok [OF this, of t] obtain r1 b es
    where rm: "removeTile t r = Inr (r1, b, es)" and r1: "record_ok r1" by blast
  from destroy_ok [OF r1] obtain r2 dv
    where de: "destroy r1 = Inr (r2, [ConvertorDestroy dv (priv_type r1)])" by blast
  show ?thesis
    using Some rm de ok ok_drop_live [OF ok] ok_update_live [OF ok Some r1]
      ok_to_zombie [OF ok Some r1]
    by (auto simp: unloadCacheForTile_def)
qed

lemma unloadCaches_ok:
  "tilecache_ok s \<Longrightarrow>
   \<exists>s'. unloadCaches t d keys s = Inr s' \<and> tilecache_ok s' \<and>
        priv_tilesLoaded s' = priv_tilesLoaded s \<and> tiles s' = tiles s \<and>
        priv_maxCacheItemCount s' = priv_maxCacheItemCount s"
proof (induction keys arbitrary: s)
  case Nil
  then show ?case by simp
next
  case (Cons key keys)
  from unloadCacheForTile_ok [OF Cons.prems, of t key d] obtain s1 b
    where 1: "unloadCacheForTile t key d s = Inr (s1, b)" "tilecache_ok s1"
      "priv_tilesLoaded s1 = priv_tilesLoaded s" "tiles s1 = tiles s"
      "priv_maxCacheItemCount s1 = priv_maxCacheItemCount s" by blast
  from Cons.IH [OF 1(2)] 1 show ?case by simp
qed

lemma unloadTile_ok:
  assumes "tilecache_ok s"
  shows "\<exists>s'. unloadTile un t d idx s = Inr s' \<and> tilecache_ok s' \<and>
           priv_maxCacheItemCount s' = priv_maxCacheItemCount s \<and>
           priv_tilesLoaded s' =
             (case idx of None \<Rightarrow> priv_tilesLoaded s | Some i \<Rightarrow> splice1 i (priv_tilesLoaded s))"
proof -
  from unloadCaches_ok [OF assms, of t d "priv_caches (tiles s t)"] obtain s1
    where 1: "unloadCaches t d (priv_caches (tiles s t)) s = Inr s1" "tilecache_ok s1"
      "priv_tilesLoaded s1 = priv_tilesLoaded s" "priv_maxCacheItemCount s1 = priv_maxCacheItemCount s"
    by blast
  from 1(2) have "tilecache_ok (s1\<lparr>priv_tilesLoaded := x, tiles := y\<rparr>)" for x y
    by (simp add: tilecache_ok_def)
  with 1 show ?thesis by (auto simp: unloadTile_def split: option.splits)
qed

lemma store_record_fields [simp]:
  "priv_tilesLoaded (store_record key r s) = priv_tilesLoaded s"
  "tiles (store_record key r s) = tiles s"
  "priv_maxCacheItemCount (store_record key r s) = priv_maxCacheItemCount s"
  "effects (store_record key r s) = effects s"
  "priv_cachesLoadedCount (store_record key r s) = priv_cachesLoadedCount s"
  "priv_zombiesLoadedCount (store_record key r s) = priv_zombiesLoadedCount s"
  by (simp_all add: store_record_def split: option.splits)

lemma getCacheRecord_log [simp]: "getCacheRecord (log es s) key = getCacheRecord s key"
  by (simp add: getCacheRecord_def split: option.splits)

lemma getCacheRecord_ok:
  assumes "tilecache_ok s" and "getCacheRecord s key = Some r"
  shows "record_ok r"
proof (cases "map_of (priv_cachesLoaded s) key")
  case None
  with assms(2) have "map_of (priv_zombiesLoaded s) key = Some r"
    by (simp add: getCacheRecord_def)
  moreover from assms(1) have "list_all record_ok (map snd (priv_zombiesLoaded s))"
    by (simp add: tilecache_ok_def)
  ultimately show ?thesis by (rule all_lookup)
next
  case (Some a)
  with assms(2) have "map_of (priv_cachesLoaded s) key = Some r"
    by (simp add: getCacheRecord_def)
  moreover from assms(1) have "list_all record_ok (map snd (priv_cachesLoaded s))"
    by (simp add: tilecache_ok_def)
  ultimately show ?thesis by (rule all_lookup)
qed

lemma store_record_ok:
  assumes "tilecache_ok s" and "getCacheRecord s key = Some r0" and "record_ok r"
  shows "tilecache_ok (store_record key r s) \<and> getCacheRecord (store_record key r s) key = Some r"
proof (cases "map_of (priv_cachesLoaded s) key")
  case None
  with assms(2) have z: "map_of (priv_zombiesLoaded s) key = Some r0"
    by (simp add: getCacheRecord_def)
  with None ok_update_zombie [OF assms(1) z assms(3)] show ?thesis
    by (simp add: store_record_def getCacheRecord_def AList.update_conv')
next
  case (Some a)
  with ok_update_live [OF assms(1) Some assms(3)] show ?thesis
    by (simp add: store_record_def getCacheRecord_def AList.update_conv')
qed

lemma store_new_ok:
  assumes "tilecache_ok s" and "getCacheRecord s key = None" and "record_ok r"
  shows "tilecache_ok
           (store_record key r
              (s\<lparr>priv_cachesLoaded := AList.update key r0 (priv_cachesLoaded s),
                 priv_cachesLoadedCount := n\<rparr>)) \<and>
         getCacheRecord
           (store_record key r
              (s\<lparr>priv_cachesLoaded := AList.update key r0 (priv_cachesLoaded s),
                 priv_cachesLoadedCount := n\<rparr>)) key = Some r"
proof -
  from assms(2) have none: "map_of (priv_cachesLoaded s) key = None"
    "map_of (priv_zombiesLoaded s) key = None"
    by (auto simp: getCacheRecord_def split: option.splits)
  have st: "store_record key r
              (s\<lparr>priv_cachesLoaded := AList.update key r0 (priv_cachesLoaded s),
                 priv_cachesLoadedCount := n\<rparr>) =
            s\<lparr>priv_cachesLoaded := AList.update key r (AList.update key r0 (priv_cachesLoaded s)),
              priv_cachesLoadedCount := n\<rparr>"
    by (simp add: store_record_def AList.update_conv')
  have "list_all record_ok (map snd al) \<Longrightarrow>
        list_all record_ok (map snd (AList.update key r (AList.update key r0 al)))" for al
    using assms(3) by (induction al) auto
  with assms(1)
  have "list_all record_ok (map snd (AList.update key r (AList.update key r0 (priv_cachesLoaded s))))"
    by (simp add: tilecache_ok_def)
  then show ?thesis
    unfolding st using assms(1) none
    by (auto simp: tilecache_ok_def getCacheRecord_def AList.update_conv')
qed

lemma cacheTile_attach_ok:
  assumes ok: "tilecache_ok s"
    and key: "key = (if o_cacheKey opts = [] then cacheKey (tiles s (o_tile opts)) else o_cacheKey opts)"
  shows "\<exists>s1 rec ts new.
           cacheTile_attach cv opts s = Inr (s1, rec, key) \<and>
           tilecache_ok s1 \<and> priv_tilesLoaded s1 = priv_tilesLoaded s \<and> tiles s1 = tiles s \<and>
           priv_maxCacheItemCount s1 = priv_maxCacheItemCount s \<and>
           getCacheRecord s1 key = Some rec \<and>
           priv_tiles rec = Some ts \<and> o_tile opts \<in> set ts \<and>
           effects s1 = effects s @ new \<and>
           (getCacheRecord s key = None \<or>
            ConsoleAssert ''[TileCache.cacheTile] options.data is required to create an CacheRecord''
              \<notin> set new)"
proof (cases "getCacheRecord s key")
  case None
  define dat where "dat = (if o_data opts = Undefined then o_image opts else o_data opts)"
  define dty where "dty = (if truthy (o_dataType opts) then o_dataType opts else guessType cv dat)"
  define s0 where "s0 = s\<lparr>priv_cachesLoaded := AList.update key new_CacheRecord (priv_cachesLoaded s),
                          priv_cachesLoadedCount := priv_cachesLoadedCount s + 1\<rparr>"
  from addTile_ok [of new_CacheRecord "o_tile opts" dat dty] obtain r' ts
    where a: "addTile (o_tile opts) dat dty new_CacheRecord = Inr r'" "record_ok r'"
      "priv_tiles r' = Some ts" "o_tile opts \<in> set ts" by blast
  have "\<exists>new. cacheTile_attach cv opts s = Inr (log new (store_record key r' s0), r', key)"
    using None a(1) [unfolded dty_def dat_def]
    unfolding cacheTile_attach_def Let_def key [symmetric] s0_def
    by (simp split del: if_split cong: if_cong) blast
  then obtain new where eq: "cacheTile_attach cv opts s = Inr (log new (store_record key r' s0), r', key)"
    by blast
  from store_new_ok [OF ok None a(2), where ?r0.0 = new_CacheRecord and n = "priv_cachesLoadedCount s + 1"]
  have "tilecache_ok (store_record key r' s0)" "getCacheRecord (store_record key r' s0) key = Some r'"
    by (simp_all add: s0_def)
  with eq a None show ?thesis
    by (simp add: s0_def)
next
  case (Some r)
  with ok have rok: "record_ok r" by (rule getCacheRecord_ok)
  then have nd: "\<not> priv_destroyed r" by (simp add: record_ok_def)
  define dty where "dty = (if truthy (o_dataType opts) then o_dataType opts else guessType cv (o_data opts))"
  define a0 where "a0 = (if cacheKey (tiles s (o_tile opts)) = []
                then [ConsoleAssert ''[TileCache.cacheTile] options.tile.cacheKey is required'']
                else [])"
  define a2 where "a2 = (if truthy (o_dataType opts) then []
                else [ConsoleError ''[TileCache.cacheTile] options.dataType is newly required.'',
                      GuessType (o_data opts)])"
  define a3 where "a3 = (if key = cacheKey (tiles s (o_tile opts)) then [NeedsDrawOfTile (o_tile opts)] else [])"
  from addTile_ok [of r "o_tile opts" "o_data opts" dty] rok obtain r' ts
    where a: "addTile (o_tile opts) (o_data opts) dty r = Inr r'" "record_ok r'"
      "priv_tiles r' = Some ts" "o_tile opts \<in> set ts" by blast
  have eq: "cacheTile_attach cv opts s = Inr (log (a0 @ [] @ a2 @ a3) (store_record key r' s), r', key)"
    using Some a(1) [unfolded dty_def] nd
    unfolding cacheTile_attach_def Let_def key [symmetric] a0_def a2_def a3_def
    by (simp split del: if_split cong: if_cong)
  have "ConsoleAssert ''[TileCache.cacheTile] options.data is required to create an CacheRecord''
          \<notin> set (a0 @ [] @ a2 @ a3)"
    by (simp add: a0_def a2_def a3_def)
  with store_record_ok [OF ok Some a(2)] eq a show ?thesis
    by simp
qed

lemma ok_tiles_update [simp]:
  "tilecache_ok (s\<lparr>priv_tilesLoaded := x\<rparr>) = tilecache_ok s"
  by (simp add: tilecache_ok_def)

lemma cacheTile_insert_ok [simp]:
  "tilecache_ok (cacheTile_insert t len0 w s) = tilecache_ok s"
  by (simp add: cacheTile_insert_def Let_def split: option.splits)

lemma ok_drop_zombie:
  assumes "tilecache_ok s" and "priv_zombiesLoaded s = (k, z) # rest"
  shows "AList.delete k (priv_zombiesLoaded s) = rest"
    and "tilecache_ok (s\<lparr>priv_zombiesLoaded := rest,
                          priv_zombiesLoadedCount := priv_zombiesLoadedCount s - 1\<rparr>)"
    and "record_ok z"
proof -
  from assms have d: "distinct (map fst ((k, z) # rest))" by (simp add: tilecache_ok_def)
  then show "AList.delete k (priv_zombiesLoaded s) = rest"
    unfolding assms(2) by (rule delete_head)
  from assms show "record_ok z" by (simp add: tilecache_ok_def)
  have "dom (map_of rest) \<subseteq> dom (map_of (priv_zombiesLoaded s))"
    unfolding assms(2) by auto
  with assms show "tilecache_ok (s\<lparr>priv_zombiesLoaded := rest,
                          priv_zombiesLoadedCount := priv_zombiesLoadedCount s - 1\<rparr>)"
    by (auto simp: tilecache_ok_def)
qed

lemma cacheTile_evict_ok:
  assumes ok: "tilecache_ok s"
  shows "\<exists>s' w. cacheTile_evict un c s = Inr (s', w) \<and> tilecache_ok s'"
proof (cases "priv_maxCacheItemCount s < priv_cachesLoadedCount s + priv_zombiesLoadedCount s")
  case False
  with ok show ?thesis by (simp add: cacheTile_evict_def)
next
  case over: True
  show ?thesis
  proof (cases "0 < priv_zombiesLoadedCount s")
    case True
    show ?thesis
    proof (cases "priv_zombiesLoaded s")
      case Nil
      with over True ok show ?thesis by (simp add: cacheTile_evict_def)
    next
      case (Cons p rest)
      obtain k z where p: "p = (k, z)" by (cases p)
      note zs = Cons [unfolded p]
      from destroy_ok [OF ok_drop_zombie(3) [OF ok zs]] obtain z' d
        where de: "destroy z = Inr (z', [ConvertorDestroy d (priv_type z)])" by blast
      from over True zs de ok_drop_zombie(1,2) [OF ok zs] show ?thesis
        by (simp add: cacheTile_evict_def)
    qed
  next
    case False
    show ?thesis
    proof (cases "scanWorst (tiles s) c (priv_tilesLoaded s) (length (priv_tilesLoaded s)) None")
      case None
      with over False ok show ?thesis by (simp add: cacheTile_evict_def)
    next
      case (Some p)
      obtain w t where p: "p = (w, t)" by (cases p)
      from unloadTile_ok [OF ok, of un t True None] obtain s'
        where "unloadTile un t True None s = Inr s'" "tilecache_ok s'" by blast
      with over False Some p show ?thesis by (simp add: cacheTile_evict_def)
    qed
  qed
qed

lemma cacheTile_ok:
  assumes ok: "tilecache_ok s"
  shows "\<exists>s'. cacheTile un cv opts s = Inr s' \<and> tilecache_ok s'"
proof -
  from cacheTile_attach_ok [OF ok refl, of cv opts] obtain s1 rec key
    where 1: "cacheTile_attach cv opts s = Inr (s1, rec, key)" "tilecache_ok s1" by blast
  from cacheTile_evict_ok [OF 1(2), of un "o_cutoff opts"] obtain s2 w
    where 2: "cacheTile_evict un (o_cutoff opts) s1 = Inr (s2, w)" "tilecache_ok s2" by blast
  from 1 2 show ?thesis by (simp add: cacheTile_def)
qed

lemma length_splice1: "i < length xs \<Longrightarrow> length (splice1 i xs) = length xs - 1"
  by (simp add: splice1_def)

lemma clearLoop_ok:
  "n \<le> length (priv_tilesLoaded s) \<Longrightarrow> tilecache_ok s \<Longrightarrow>
   \<exists>s'. clearLoop un timg d n s = Inr s' \<and> tilecache_ok s'"
proof (induction n arbitrary: s)
  case 0
  then show ?case by simp
next
  case (Suc n)
  then have len: "n < length (priv_tilesLoaded s)" by simp
  let ?t = "priv_tilesLoaded s ! n"
  show ?case
  proof (cases "tiledImage (tiles s ?t) = timg")
    case False
    with len Suc.IH [of s] Suc.prems show ?thesis by (simp add: Let_def)
  next
    case match: True
    show ?thesis
    proof (cases "tile_loaded (tiles s ?t)")
      case False
      let ?s = "s\<lparr>priv_tilesLoaded := splice1 n (priv_tilesLoaded s)\<rparr>"
      from len have "n \<le> length (priv_tilesLoaded ?s)" by (simp add: length_splice1)
      from Suc.IH [OF this] Suc.prems(2) match False len show ?thesis by (simp add: Let_def)
    next
      case True
      from unloadTile_ok [OF Suc.prems(2), of un ?t d "Some n"] obtain s'
        where u: "unloadTile un ?t d (Some n) s = Inr s'" "tilecache_ok s'"
          "priv_tilesLoaded s' = splice1 n (priv_tilesLoaded s)" by auto
      from len u(3) have "n \<le> length (priv_tilesLoaded s')" by (simp add: length_splice1)
      from Suc.IH [OF this u(2)] u(1) match True len show ?thesis by (simp add: Let_def)
    qed
  qed
qed

lemma destroyZombies_ok:
  "list_all record_ok (map snd zs) \<Longrightarrow> \<exists>es'. destroyZombies zs es = Inr es'"
proof (induction zs arbitrary: es)
  case Nil
  then show ?case by simp
next
  case (Cons p zs)
  obtain k z where p: "p = (k, z)" by (cases p)
  from Cons.prems p have "record_ok z" by simp
  from destroy_ok [OF this] obtain z' d
    where "destroy z = Inr (z', [ConvertorDestroy d (priv_type z)])" by blast
  with Cons p show ?case by simp
qed

lemma clearTilesFor_ok:
  assumes ok: "tilecache_ok s"
  shows "\<exists>s'. clearTilesFor un timg zc s = Inr s' \<and> tilecache_ok s'"
proof -
  from ok have "list_all record_ok (map snd (priv_zombiesLoaded s))" by (simp add: tilecache_ok_def)
  from destroyZombies_ok [OF this, of "[]"] obtain es
    where dz: "destroyZombies (priv_zombiesLoaded s) [] = Inr es" by blast
  let ?s = "log es (s\<lparr>priv_zombiesLoaded := [], priv_zombiesLoadedCount := 0\<rparr>)"
  from ok have ok': "tilecache_ok ?s" by (simp add: tilecache_ok_def)
  have len: "length (priv_tilesLoaded s) \<le> length (priv_tilesLoaded ?s)" by simp
  from clearLoop_ok [OF len ok'] clearLoop_ok [OF le_refl ok] dz show ?thesis
    by (simp add: clearTilesFor_def Let_def)
qed

lemma step_ok:
  assumes ok: "tilecache_ok s"
  shows "\<exists>s'. step un cv x s = Inr s' \<and> tilecache_ok s'"
proof (cases x)
  case (CacheTile opts)
  with cacheTile_ok [OF ok] show ?thesis by simp
next
  case (UnloadCacheForTile t key d)
  from unloadCacheForTile_ok [OF ok, of t key d] obtain s' b
    where "unloadCacheForTile t key d s = Inr (s', b)" "tilecache_ok s'" by blast
  with UnloadCacheForTile show ?thesis by simp
next
  case (UnloadTile t d idx)
  from unloadTile_ok [OF ok, of un t d idx] obtain s'
    where "unloadTile un t d idx s = Inr s'" "tilecache_ok s'" by blast
  with UnloadTile show ?thesis by simp
next
  case (ClearTilesFor timg zc)
  with clearTilesFor_ok [OF ok] show ?thesis by simp
qed

lemma run_ok:
  "tilecache_ok s \<Longrightarrow> \<exists>s'. run un cv xs s = Inr s' \<and> tilecache_ok s'"
proof (induction xs arbitrary: s)
  case Nil
  then show ?case by simp
next
  case (Cons x xs)
  from step_ok [OF Cons.prems, of un cv x] obtain s1
    where "step un cv x s = Inr s1" "tilecache_ok s1" by blast
  with Cons.IH [OF this(2)] show ?case by simp
qed

lemma new_TileCache_ok: "tilecache_ok (new_TileCache n h)"
  by (simp add: tilecache_ok_def new_TileCache_def)

text \<open>From a new cache, no sequence of cache operations throws, and every state it reaches
  satisfies \<open>tilecache_ok\<close>.\<close>

lemma reachable_ok:
  "\<exists>s'. run un cv xs (new_TileCache n h) = Inr s' \<and> tilecache_ok s'"
  by (rule run_ok) (rule new_TileCache_ok)

section \<open>TileCache: eviction prefers zombies\<close>

text \<open>Claim C5: when, after attaching the tile, \<^verbatim>\<open>cacheTile\<close> finds the counters above the
  capacity and the zombie count positive, it destroys one zombie record and removes its key;
  every other zombie, the live tier and its counter, the tiles and \<^verbatim>\<open>_tilesLoaded\<close> (up to
  the tile being cached) are as they were after attaching, and no tile is unloaded.\<close>

theorem cacheTile_prefers_zombie:
  assumes ok: "tilecache_ok s"
    and att: "cacheTile_attach cv opts s = Inr (s1, rec, key)"
    and over: "priv_maxCacheItemCount s1 < priv_cachesLoadedCount s1 + priv_zombiesLoadedCount s1"
    and zpos: "0 < priv_zombiesLoadedCount s1"
  shows "\<exists>s' k z z' d.
           cacheTile un cv opts s = Inr s' \<and>
           map_of (priv_zombiesLoaded s1) k = Some z \<and>
           destroy z = Inr (z', [ConvertorDestroy d (priv_type z)]) \<and> priv_destroyed z' \<and>
           map_of (priv_zombiesLoaded s') k = None \<and>
           (\<forall>k'. k' \<noteq> k \<longrightarrow> map_of (priv_zombiesLoaded s') k' = map_of (priv_zombiesLoaded s1) k') \<and>
           Suc (length (priv_zombiesLoaded s')) = length (priv_zombiesLoaded s1) \<and>
           priv_zombiesLoadedCount s' = priv_zombiesLoadedCount s1 - 1 \<and>
           priv_cachesLoaded s' = priv_cachesLoaded s1 \<and>
           priv_cachesLoadedCount s' = priv_cachesLoadedCount s1 \<and>
           tiles s' = tiles s \<and>
           effects s' = effects s1 @ [ConvertorDestroy d (priv_type z)] \<and>
           (priv_tilesLoaded s' = priv_tilesLoaded s \<or>
            priv_tilesLoaded s' = priv_tilesLoaded s @ [o_tile opts])"
proof -
  from cacheTile_attach_ok [OF ok refl, of cv opts] att
  have ok1: "tilecache_ok s1" and same: "priv_tilesLoaded s1 = priv_tilesLoaded s" "tiles s1 = tiles s"
    by auto
  from ok1 zpos have "priv_zombiesLoaded s1 \<noteq> []" by (auto simp: tilecache_ok_def)
  then obtain k z rest where zs: "priv_zombiesLoaded s1 = (k, z) # rest"
    by (cases "priv_zombiesLoaded s1") auto
  note dz = ok_drop_zombie [OF ok1 zs]
  from destroy_ok [OF dz(3)] obtain z' d
    where de: "destroy z = Inr (z', [ConvertorDestroy d (priv_type z)])" "priv_destroyed z'" by blast
  define s2 where "s2 = log [ConvertorDestroy d (priv_type z)]
     (s1\<lparr>priv_zombiesLoaded := rest, priv_zombiesLoadedCount := priv_zombiesLoadedCount s1 - 1\<rparr>)"
  have ev: "cacheTile_evict un (o_cutoff opts) s1 = Inr (s2, None)"
    using over zpos zs de(1) dz(1) by (simp add: cacheTile_evict_def s2_def)
  define s' where "s' = cacheTile_insert (o_tile opts) (length (priv_tilesLoaded s)) None s2"
  have res: "cacheTile un cv opts s = Inr s'"
    using att ev by (simp add: cacheTile_def s'_def)
  from ok1 zs have dist: "k \<notin> fst ` set rest" by (auto simp: tilecache_ok_def)
  have fields: "priv_zombiesLoaded s' = rest" "priv_zombiesLoadedCount s' = priv_zombiesLoadedCount s1 - 1"
    "priv_cachesLoaded s' = priv_cachesLoaded s1" "priv_cachesLoadedCount s' = priv_cachesLoadedCount s1"
    "tiles s' = tiles s" "effects s' = effects s1 @ [ConvertorDestroy d (priv_type z)]"
    by (simp_all add: s'_def s2_def cacheTile_insert_def Let_def same)
  have tl: "priv_tilesLoaded s' = priv_tilesLoaded s \<or> priv_tilesLoaded s' = priv_tilesLoaded s @ [o_tile opts]"
    by (simp add: s'_def s2_def cacheTile_insert_def Let_def same)
  have "map_of (priv_zombiesLoaded s') k = None"
    using dist by (simp add: fields map_of_eq_None_iff)
  moreover have "\<forall>k'. k' \<noteq> k \<longrightarrow> map_of (priv_zombiesLoaded s') k' = map_of (priv_zombiesLoaded s1) k'"
    by (simp add: fields zs)
  moreover have "map_of (priv_zombiesLoaded s1) k = Some z" by (simp add: zs)
  moreover have "Suc (length (priv_zombiesLoaded s')) = length (priv_zombiesLoaded s1)"
    by (simp add: fields zs)
  ultimately show ?thesis using res de fields(2-6) tl by blast
qed

lemma ex_state4_ok: "tilecache_ok ex_state4"
  by (simp add: tilecache_ok_def record_ok_def ex_state4_def ex_zombie_def ex_live_def)

lemma ex_state4_attach:
  "cacheTile_attach ex_convertor_none (ex_opts 4 (JObj 4)) ex_state4 =
     Inr (ex_state4_attached, ex_live 4, ''K4'')"
  by (simp add: ex_defs ex5_defs ex4_defs record_defs cache_defs)

theorem cacheTile_prefers_zombie_witness:
  "tilecache_ok ex_state4 \<and>
   cacheTile_attach ex_convertor_none (ex_opts 4 (JObj 4)) ex_state4 =
     Inr (ex_state4_attached, ex_live 4, ''K4'') \<and>
   priv_maxCacheItemCount ex_state4_attached
     < priv_cachesLoadedCount ex_state4_attached + priv_zombiesLoadedCount ex_state4_attached \<and>
   0 < priv_zombiesLoadedCount ex_state4_attached \<and>
   (\<exists>s' k z z' d.
      cacheTile ex_unload ex_convertor_none (ex_opts 4 (JObj 4)) ex_state4 = Inr s' \<and>
      map_of (priv_zombiesLoaded ex_state4_attached) k = Some z \<and>
      destroy z = Inr (z', [ConvertorDestroy d (priv_type z)]) \<and> priv_destroyed z' \<and>
      map_of (priv_zombiesLoaded s') k = None \<and>
      Suc (length (priv_zombiesLoaded s')) = length (priv_zombiesLoaded ex_state4_attached) \<and>
      priv_cachesLoaded s' = priv_cachesLoaded ex_state4_attached \<and>
      tiles s' = tiles ex_state4) \<and>
   map_sum id tiers (cacheTile ex_unload ex_convertor_none (ex_opts 4 (JObj 4)) ex_state4) =
     Inr ([(''K1'', ex_live 1), (''K2'', ex_live 2), (''K3'', ex_live 3), (''K4'', ex_live 4)], 4, [], 0) \<and>
   map_sum id priv_tilesLoaded (cacheTile ex_unload ex_convertor_none (ex_opts 4 (JObj 4)) ex_state4) =
     Inr [1, 2, 3, 4]"
proof -
  have h: "priv_maxCacheItemCount ex_state4_attached
     < priv_cachesLoadedCount ex_state4_attached + priv_zombiesLoadedCount ex_state4_attached"
    "0 < priv_zombiesLoadedCount ex_state4_attached"
    by (simp_all add: ex4_defs)
  have run: "map_sum id tiers (cacheTile ex_unload ex_convertor_none (ex_opts 4 (JObj 4)) ex_state4) =
     Inr ([(''K1'', ex_live 1), (''K2'', ex_live 2), (''K3'', ex_live 3), (''K4'', ex_live 4)], 4, [], 0)"
    "map_sum id priv_tilesLoaded (cacheTile ex_unload ex_convertor_none (ex_opts 4 (JObj 4)) ex_state4) =
     Inr [1, 2, 3, 4]"
    by (simp_all add: ex_defs ex5_defs ex4_defs record_defs cache_defs)
  from cacheTile_prefers_zombie [OF ex_state4_ok ex_state4_attach h, of ex_unload]
  have "\<exists>s' k z z' d.
      cacheTile ex_unload ex_convertor_none (ex_opts 4 (JObj 4)) ex_state4 = Inr s' \<and>
      map_of (priv_zombiesLoaded ex_state4_attached) k = Some z \<and>
      destroy z = Inr (z', [ConvertorDestroy d (priv_type z)]) \<and> priv_destroyed z' \<and>
      map_of (priv_zombiesLoaded s') k = None \<and>
      Suc (length (priv_zombiesLoaded s')) = length (priv_zombiesLoaded ex_state4_attached) \<and>
      priv_cachesLoaded s' = priv_cachesLoaded ex_state4_attached \<and>
      tiles s' = tiles ex_state4"
    by blast
  with ex_state4_ok ex_state4_attach h run show ?thesis by blast
qed

section \<open>TileCache: the data check\<close>












lemma cacheTile_insert_fields [simp]:
  "effects (cacheTile_insert t len0 w s) = effects s"
  "getCacheRecord (cacheTile_insert t len0 w s) key = getCacheRecord s key"
  by (simp_all add: cacheTile_insert_def getCacheRecord_def Let_def split: option.splits)






end
